theory Spec2Isabelle
  imports Main
begin

section \<open>JavaScript values used by \<^verbatim>\<open>html/validation.js\<close>\<close>

text \<open>
  A JavaScript string is a sequence of UTF-16 code units; \<open>length\<close> counts code units, as
  \<^verbatim>\<open>value.length\<close> does. Code units are natural numbers (below 65536 in the runtime;
  nothing here depends on the bound). \<open>js ''abc''\<close> is the string of an ASCII literal.
\<close>

type_synonym jsstring = "nat list"

abbreviation js :: "string \<Rightarrow> jsstring" where
  "js s \<equiv> map of_char s"

text \<open>A field value is a string or absent (\<^verbatim>\<open>undefined\<close>, here \<open>None\<close>).\<close>

type_synonym jsvalue = "jsstring option"

text \<open>\<^verbatim>\<open>!!value\<close>: \<^verbatim>\<open>undefined\<close> and the empty string are falsy.\<close>

definition truthy :: "jsvalue \<Rightarrow> bool" where
  "truthy v = (case v of None \<Rightarrow> False | Some s \<Rightarrow> s \<noteq> [])"

text \<open>The string conversion \<^verbatim>\<open>RegExp.prototype.test\<close> applies to its argument.\<close>

definition ToString :: "jsvalue \<Rightarrow> jsstring" where
  "ToString v = (case v of None \<Rightarrow> js ''undefined'' | Some s \<Rightarrow> s)"

text \<open>The exceptions the code can raise.\<close>

datatype exn = TypeError | SyntaxError

text \<open>\<^verbatim>\<open>s.split(sep)\<close> for a separator of one code unit: never an empty array.\<close>

fun split_on :: "nat \<Rightarrow> jsstring \<Rightarrow> jsstring list" where
  "split_on sep [] = [[]]"
| "split_on sep (c # cs) =
     (if c = sep then [] # split_on sep cs
      else (case split_on sep cs of [] \<Rightarrow> [[c]] | p # ps \<Rightarrow> (c # p) # ps))"

text \<open>\<^verbatim>\<open>xs.join(sep)\<close> on an array of strings.\<close>

fun join :: "jsstring \<Rightarrow> jsstring list \<Rightarrow> jsstring" where
  "join sep [] = []"
| "join sep [x] = x"
| "join sep (x # y # ys) = x @ sep @ join sep (y # ys)"

text \<open>Reading \<^verbatim>\<open>arr[i]\<close>, as array destructuring does: absent elements are \<^verbatim>\<open>undefined\<close>.\<close>

definition element :: "'a list \<Rightarrow> nat \<Rightarrow> 'a option" where
  "element xs i = (if i < length xs then Some (xs ! i) else None)"


section \<open>\<^verbatim>\<open>Number(string)\<close>\<close>

text \<open>
  The numbers the model computes with are the integers that a double holds exactly. A
  numeric literal of any other form (sign, fraction, exponent, radix prefix,
  \<^verbatim>\<open>Infinity\<close>, or more than \<open>2^53\<close>) has a floating-point value that the model does
  not compute: it is classified \<open>Float\<close>.
\<close>

datatype number = NaN | Num int | Float

definition StrWhiteSpaceChar :: "nat \<Rightarrow> bool" where
  "StrWhiteSpaceChar c \<longleftrightarrow>
     c \<in> {9, 10, 11, 12, 13, 32, 160, 5760, 8232, 8233, 8239, 8287, 12288, 65279}
     \<or> (8192 \<le> c \<and> c \<le> 8202)"

definition trim :: "jsstring \<Rightarrow> jsstring" where
  "trim s = rev (dropWhile StrWhiteSpaceChar (rev (dropWhile StrWhiteSpaceChar s)))"

definition DecimalDigit :: "nat \<Rightarrow> bool" where
  "DecimalDigit c \<longleftrightarrow> 48 \<le> c \<and> c \<le> 57"

definition DecimalDigits :: "jsstring \<Rightarrow> bool" where
  "DecimalDigits s \<longleftrightarrow> s \<noteq> [] \<and> list_all DecimalDigit s"

text \<open>The mathematical value of a string of decimal digits.\<close>

definition decimal_value :: "jsstring \<Rightarrow> int" where
  "decimal_value s = foldl (\<lambda>a c. 10 * a + (int c - 48)) 0 s"

text \<open>\<open>ExponentPart\<close>: \<^verbatim>\<open>e\<close> or \<^verbatim>\<open>E\<close>, an optional sign, digits.\<close>

definition ExponentPart :: "jsstring \<Rightarrow> bool" where
  "ExponentPart s =
     (case s of
        [] \<Rightarrow> False
      | e # r \<Rightarrow> (e = 101 \<or> e = 69) \<and>
          (case r of
             [] \<Rightarrow> False
           | sg # r' \<Rightarrow> if sg = 43 \<or> sg = 45 then DecimalDigits r' else DecimalDigits r))"

text \<open>
  \<open>StrUnsignedDecimalLiteral\<close>: \<^verbatim>\<open>Infinity\<close>, or digits with an optional fraction and
  exponent, or a fraction starting with the dot.
\<close>

definition StrUnsignedDecimalLiteral :: "jsstring \<Rightarrow> bool" where
  "StrUnsignedDecimalLiteral s =
     (s = js ''Infinity'' \<or>
      (let ip = takeWhile DecimalDigit s; r = dropWhile DecimalDigit s in
       case r of
         [] \<Rightarrow> ip \<noteq> []
       | c # r' \<Rightarrow>
           if c = 46 then
             (let fp = takeWhile DecimalDigit r'; r'' = dropWhile DecimalDigit r' in
              (ip \<noteq> [] \<or> fp \<noteq> []) \<and> (r'' = [] \<or> ExponentPart r''))
           else ip \<noteq> [] \<and> ExponentPart r))"

definition StrDecimalLiteral :: "jsstring \<Rightarrow> bool" where
  "StrDecimalLiteral s =
     (case s of
        [] \<Rightarrow> False
      | c # r \<Rightarrow> if c = 43 \<or> c = 45 then StrUnsignedDecimalLiteral r
                 else StrUnsignedDecimalLiteral s)"

text \<open>\<open>NonDecimalIntegerLiteral\<close>: \<^verbatim>\<open>0b\<close>, \<^verbatim>\<open>0o\<close>, \<^verbatim>\<open>0x\<close> and their digits.\<close>

definition HexDigit :: "nat \<Rightarrow> bool" where
  "HexDigit c \<longleftrightarrow> DecimalDigit c \<or> (97 \<le> c \<and> c \<le> 102) \<or> (65 \<le> c \<and> c \<le> 70)"

definition NonDecimalIntegerLiteral :: "jsstring \<Rightarrow> bool" where
  "NonDecimalIntegerLiteral s =
     (case s of
        z # p # r \<Rightarrow> z = 48 \<and> r \<noteq> [] \<and>
          (((p = 98 \<or> p = 66) \<and> list_all (\<lambda>c. c = 48 \<or> c = 49) r) \<or>
           ((p = 111 \<or> p = 79) \<and> list_all (\<lambda>c. 48 \<le> c \<and> c \<le> 55) r) \<or>
           ((p = 120 \<or> p = 88) \<and> list_all HexDigit r))
      | _ \<Rightarrow> False)"

text \<open>
  \<open>StringToNumber\<close>: white space around the literal is dropped; the empty string is
  \<open>0\<close>; a string that is no \<open>StrNumericLiteral\<close> is \<open>NaN\<close>.
\<close>

definition Number_str :: "jsstring \<Rightarrow> number" where
  "Number_str s =
     (let t = trim s in
      if t = [] then Num 0
      else if DecimalDigits t then
        (if decimal_value t \<le> 2 ^ 53 then Num (decimal_value t) else Float)
      else if StrDecimalLiteral t \<or> NonDecimalIntegerLiteral t then Float
      else NaN)"


section \<open>Dates: the time-value arithmetic of ECMAScript\<close>

text \<open>
  A time value is a number of milliseconds since 1970-01-01T00:00Z; a \<^verbatim>\<open>Date\<close> object
  holds a time value or \<open>NaN\<close> (\<^verbatim>\<open>Invalid Date\<close>).
\<close>

datatype Date = Invalid_Date | TimeValue int

definition msPerDay :: int where
  "msPerDay = 86400000"

definition Day :: "int \<Rightarrow> int" where
  "Day t = t div msPerDay"

definition DaysInYear :: "int \<Rightarrow> int" where
  "DaysInYear y =
     (if y mod 4 \<noteq> 0 then 365
      else if y mod 100 \<noteq> 0 then 366
      else if y mod 400 \<noteq> 0 then 365
      else 366)"

definition DayFromYear :: "int \<Rightarrow> int" where
  "DayFromYear y =
     365 * (y - 1970) + (y - 1969) div 4 - (y - 1901) div 100 + (y - 1601) div 400"

text \<open>
  \<open>YearFromTime t\<close> is the largest \<open>y\<close> with \<open>DayFromYear y \<le> Day t\<close>: the search
  starts from a year that is not too late and walks up.
\<close>

function year_search :: "int \<Rightarrow> int \<Rightarrow> int" where
  "year_search day y = (if DayFromYear (y + 1) \<le> day then year_search day (y + 1) else y)"
  by pat_completeness auto
termination
proof (relation "measure (\<lambda>(day, y). nat (day - DayFromYear y))")
  show "wf (measure (\<lambda>(day, y). nat (day - DayFromYear y)))"
    by simp
next
  fix day y :: int
  assume le: "DayFromYear (y + 1) \<le> day"
  have a: "(y - 1969) div 4 \<le> (y + 1 - 1969) div 4"
    by (rule zdiv_mono1) simp_all
  have "(y + 1 - 1901) div 100 \<le> (y - 1901 + 100) div 100"
    by (rule zdiv_mono1) simp_all
  then have b: "(y + 1 - 1901) div 100 \<le> (y - 1901) div 100 + 1"
    by simp
  have c: "(y - 1601) div 400 \<le> (y + 1 - 1601) div 400"
    by (rule zdiv_mono1) simp_all
  have "365 * (y - 1970) + p - q + r < 365 * (y + 1 - 1970) + p' - q' + r'"
    if "p \<le> p'" "q' \<le> q + 1" "r \<le> r'" for p p' q q' r r' :: int
    using that by simp
  from this [OF a b c] have "DayFromYear y < DayFromYear (y + 1)"
    unfolding DayFromYear_def .
  with le show "((day, y + 1), (day, y)) \<in> measure (\<lambda>(day, y). nat (day - DayFromYear y))"
    by simp
qed

definition year_of_day :: "int \<Rightarrow> int" where
  "year_of_day day =
     year_search day (1970 + (if 0 \<le> day then day div 366 else day div 365))"

definition YearFromTime :: "int \<Rightarrow> int" where
  "YearFromTime t = year_of_day (Day t)"

definition InLeapYear :: "int \<Rightarrow> int" where
  "InLeapYear t = (if DaysInYear (YearFromTime t) = 366 then 1 else 0)"

definition DayWithinYear :: "int \<Rightarrow> int" where
  "DayWithinYear t = Day t - DayFromYear (YearFromTime t)"

text \<open>The day within the year on which month \<open>m\<close> (0 to 11) starts; 12 is the year's end.\<close>

definition month_start :: "int \<Rightarrow> int \<Rightarrow> int" where
  "month_start leap m =
     (if m = 0 then 0 else if m = 1 then 31
      else if m = 2 then 59 + leap else if m = 3 then 90 + leap
      else if m = 4 then 120 + leap else if m = 5 then 151 + leap
      else if m = 6 then 181 + leap else if m = 7 then 212 + leap
      else if m = 8 then 243 + leap else if m = 9 then 273 + leap
      else if m = 10 then 304 + leap else if m = 11 then 334 + leap
      else 365 + leap)"

definition MonthFromTime :: "int \<Rightarrow> int" where
  "MonthFromTime t =
     (let d = DayWithinYear t; leap = InLeapYear t in
      if d < 31 then 0 else if d < 59 + leap then 1
      else if d < 90 + leap then 2 else if d < 120 + leap then 3
      else if d < 151 + leap then 4 else if d < 181 + leap then 5
      else if d < 212 + leap then 6 else if d < 243 + leap then 7
      else if d < 273 + leap then 8 else if d < 304 + leap then 9
      else if d < 334 + leap then 10 else 11)"

definition DateFromTime :: "int \<Rightarrow> int" where
  "DateFromTime t =
     (let d = DayWithinYear t; leap = InLeapYear t; m = MonthFromTime t in
      if m = 0 then d + 1 else if m = 1 then d - 30
      else if m = 2 then d - 58 - leap else if m = 3 then d - 89 - leap
      else if m = 4 then d - 119 - leap else if m = 5 then d - 150 - leap
      else if m = 6 then d - 180 - leap else if m = 7 then d - 211 - leap
      else if m = 8 then d - 242 - leap else if m = 9 then d - 272 - leap
      else if m = 10 then d - 303 - leap else d - 333 - leap)"

text \<open>
  \<open>MakeDay\<close> on integers: the month is carried into the year, the day number of the
  first of that month is found, and the date is added (so a date beyond the month's end
  runs into the following months). Where the standard lets \<open>MakeDay\<close> give \<open>NaN\<close> for
  a year out of range, the day number is computed all the same and \<open>TimeClip\<close> rejects
  it: the code passes no negative month or date that could bring it back into range.
\<close>

definition MakeDay :: "int \<Rightarrow> int \<Rightarrow> int \<Rightarrow> int" where
  "MakeDay year month date =
     (let ym = year + month div 12; mn = month mod 12 in
      DayFromYear ym + month_start (if DaysInYear ym = 366 then 1 else 0) mn + date - 1)"

definition MakeDate :: "int \<Rightarrow> int \<Rightarrow> int" where
  "MakeDate day time = day * msPerDay + time"

definition TimeClip :: "int \<Rightarrow> Date" where
  "TimeClip t = (if \<bar>t\<bar> > 8640000000000000 then Invalid_Date else TimeValue t)"

text \<open>Both \<^verbatim>\<open>Date.UTC\<close> and the \<^verbatim>\<open>Date\<close> constructor read a year from 0 to 99 as 1900 + year.\<close>

definition MakeFullYear :: "int \<Rightarrow> int" where
  "MakeFullYear y = (if 0 \<le> y \<and> y \<le> 99 then 1900 + y else y)"

text \<open>\<^verbatim>\<open>new Date(Date.UTC(year, month, date))\<close>.\<close>

definition Date_UTC :: "int \<Rightarrow> int \<Rightarrow> int \<Rightarrow> Date" where
  "Date_UTC year month date = TimeClip (MakeDate (MakeDay (MakeFullYear year) month date) 0)"


section \<open>What the host supplies\<close>

text \<open>
  The code reads the clock and the local time zone, and it relies on parts of the runtime
  that the model does not compute. They are parameters:
  \<^item> \<open>now\<close>: the time value of \<^verbatim>\<open>new Date()\<close> (one validation reads the clock more
    than once; all its reads give this value);
  \<^item> \<open>LocalTime\<close>, \<open>UTC\<close>: the conversions between UTC and local time values of the
    host's time zone;
  \<^item> \<open>toUpperCase\<close>: the Unicode upper-casing of one code unit above ASCII, as a string;
  \<^item> \<open>float_date\<close>: the result of \<^verbatim>\<open>parseISODate\<close> on a text with a \<open>Float\<close> component,
    where \<^verbatim>\<open>Number\<close> and \<^verbatim>\<open>Date.UTC\<close> work in floating point;
  \<^item> \<open>host_RegExp\<close>: the \<^verbatim>\<open>test\<close> function of \<^verbatim>\<open>new RegExp(source, "i")\<close> for a source
    outside the fragment parsed below, \<open>None\<close> when the constructor throws.
\<close>

record runtime =
  now :: int
  LocalTime :: "int \<Rightarrow> int"
  UTC :: "int \<Rightarrow> int"
  toUpperCase :: "nat \<Rightarrow> jsstring"
  float_date :: "jsstring \<Rightarrow> Date"
  host_RegExp :: "jsstring \<Rightarrow> (jsstring \<Rightarrow> bool) option"

text \<open>A host in the UTC zone, for evaluating the validator at concrete inputs.\<close>

definition utc_host :: "int \<Rightarrow> runtime" where
  "utc_host t =
     \<lparr>now = t, LocalTime = (\<lambda>t. t), UTC = (\<lambda>t. t), toUpperCase = (\<lambda>c. [c]),
      float_date = (\<lambda>s. Invalid_Date), host_RegExp = (\<lambda>s. None)\<rparr>"

text \<open>
  The local-time \<^verbatim>\<open>Date\<close> constructor and the local getters go through the zone. In a
  zone where the local midnight of every calendar day falls on that same day (every zone
  but one that has skipped a whole day), they agree with the calendar:
\<close>

definition zone_keeps_days :: "runtime \<Rightarrow> bool" where
  "zone_keeps_days rt \<longleftrightarrow>
     (\<forall>k. \<bar>k\<bar> < 100000000 \<longrightarrow>
        \<bar>UTC rt (k * msPerDay)\<bar> \<le> 8640000000000000 \<and>
        Day (LocalTime rt (UTC rt (k * msPerDay))) = k)"

text \<open>\<^verbatim>\<open>new Date(year, month, date)\<close> (local time) and the local getters.\<close>

definition new_Date :: "runtime \<Rightarrow> int \<Rightarrow> int \<Rightarrow> int \<Rightarrow> Date" where
  "new_Date rt year month date =
     TimeClip (UTC rt (MakeDate (MakeDay (MakeFullYear year) month date) 0))"

definition getFullYear :: "runtime \<Rightarrow> int \<Rightarrow> int" where
  "getFullYear rt t = YearFromTime (LocalTime rt t)"

definition getMonth :: "runtime \<Rightarrow> int \<Rightarrow> int" where
  "getMonth rt t = MonthFromTime (LocalTime rt t)"

definition getDate :: "runtime \<Rightarrow> int \<Rightarrow> int" where
  "getDate rt t = DateFromTime (LocalTime rt t)"


section \<open>Regular expressions\<close>

text \<open>
  The patterns of the file need characters, \<^verbatim>\<open>\d\<close>, sequence, alternation, \<^verbatim>\<open>\b\<close>,
  \<^verbatim>\<open>^\<close> and \<^verbatim>\<open>$\<close> (no multiline flag). A matcher state is the code unit before the
  current position (\<open>None\<close> at the start of the input) and the rest of the input;
  \<open>matches\<close> lists the states a pattern can end in, in backtracking order.
\<close>

datatype pattern =
    Eps
  | Lit nat
  | Digit
  | Cat pattern pattern
  | Alt pattern pattern
  | WordB
  | Bol
  | Eol

definition WordCharacter :: "nat \<Rightarrow> bool" where
  "WordCharacter c \<longleftrightarrow>
     (97 \<le> c \<and> c \<le> 122) \<or> (65 \<le> c \<and> c \<le> 90) \<or> (48 \<le> c \<and> c \<le> 57) \<or> c = 95"

definition IsWordChar :: "nat option \<Rightarrow> bool" where
  "IsWordChar e = (case e of None \<Rightarrow> False | Some c \<Rightarrow> WordCharacter c)"

definition head :: "'a list \<Rightarrow> 'a option" where
  "head xs = (case xs of [] \<Rightarrow> None | x # _ \<Rightarrow> Some x)"

text \<open>
  \<open>Canonicalize\<close> for the flag \<^verbatim>\<open>i\<close> without \<^verbatim>\<open>u\<close>: the upper-case form when it is a
  single code unit, except that a code unit above ASCII never folds into ASCII.
\<close>

definition Canonicalize :: "runtime \<Rightarrow> nat \<Rightarrow> nat" where
  "Canonicalize rt ch =
     (if ch < 128 then (if 97 \<le> ch \<and> ch \<le> 122 then ch - 32 else ch)
      else (case toUpperCase rt ch of
              [cu] \<Rightarrow> if cu < 128 then ch else cu
            | _ \<Rightarrow> ch))"

fun matches :: "(nat \<Rightarrow> nat) \<Rightarrow> pattern \<Rightarrow> nat option \<times> jsstring \<Rightarrow> (nat option \<times> jsstring) list" where
  "matches cz Eps st = [st]"
| "matches cz (Lit c) (prev, rest) =
     (case rest of [] \<Rightarrow> [] | x # xs \<Rightarrow> if cz x = cz c then [(Some x, xs)] else [])"
| "matches cz Digit (prev, rest) =
     (case rest of [] \<Rightarrow> [] | x # xs \<Rightarrow> if DecimalDigit x then [(Some x, xs)] else [])"
| "matches cz (Cat p q) st = concat (map (matches cz q) (matches cz p st))"
| "matches cz (Alt p q) st = matches cz p st @ matches cz q st"
| "matches cz WordB (prev, rest) =
     (if IsWordChar prev \<noteq> IsWordChar (head rest) then [(prev, rest)] else [])"
| "matches cz Bol (prev, rest) = (if prev = None then [(prev, rest)] else [])"
| "matches cz Eol (prev, rest) = (if rest = [] then [(prev, rest)] else [])"

text \<open>Without the flags \<^verbatim>\<open>g\<close> and \<^verbatim>\<open>y\<close>, \<^verbatim>\<open>test\<close> tries every start position from the left.\<close>

fun search :: "(nat \<Rightarrow> nat) \<Rightarrow> pattern \<Rightarrow> nat option \<Rightarrow> jsstring \<Rightarrow> bool" where
  "search cz p prev [] \<longleftrightarrow> matches cz p (prev, []) \<noteq> []"
| "search cz p prev (x # xs) \<longleftrightarrow> matches cz p (prev, x # xs) \<noteq> [] \<or> search cz p (Some x) xs"

text \<open>
  A \<^verbatim>\<open>RegExp\<close> object: a pattern of the fragment with its \<^verbatim>\<open>ignoreCase\<close> flag, or a
  pattern compiled by the host, known by its \<^verbatim>\<open>test\<close> function.
\<close>

datatype RegExp = RegExp pattern bool | Host_RegExp "jsstring \<Rightarrow> bool"

definition RegExp_test :: "runtime \<Rightarrow> RegExp \<Rightarrow> jsvalue \<Rightarrow> bool" where
  "RegExp_test rt re v =
     (case re of
        RegExp p ignoreCase \<Rightarrow>
          search (if ignoreCase then Canonicalize rt else (\<lambda>c. c)) p None (ToString v)
      | Host_RegExp f \<Rightarrow> f (ToString v))"

text \<open>
  For stating what a case-insensitive pattern matches: two strings that differ only in
  what \<open>Canonicalize\<close> folds, and the last code unit of a string.
\<close>

definition same_ignoring_case :: "runtime \<Rightarrow> jsstring \<Rightarrow> jsstring \<Rightarrow> bool" where
  "same_ignoring_case rt a b \<longleftrightarrow> map (Canonicalize rt) a = map (Canonicalize rt) b"

definition last_unit :: "jsstring \<Rightarrow> nat option" where
  "last_unit s = (if s = [] then None else Some (last s))"

definition cats :: "pattern list \<Rightarrow> pattern" where
  "cats ps = foldr Cat ps Eps"

fun alternatives :: "jsstring list \<Rightarrow> pattern" where
  "alternatives [] = Eps"
| "alternatives [t] = cats (map Lit t)"
| "alternatives (t # u # ts) = Alt (cats (map Lit t)) (alternatives (u # ts))"

text \<open>The syntax characters of patterns: \<^verbatim>\<open>^ $ \ . * + ? ( ) [ ] { } |\<close>.\<close>

definition SyntaxCharacter :: "nat \<Rightarrow> bool" where
  "SyntaxCharacter c \<longleftrightarrow> c \<in> {94, 36, 92, 46, 42, 43, 63, 40, 41, 91, 93, 123, 125, 124}"

text \<open>A list of terms none of which contains a syntax character.\<close>

definition plain_terms :: "jsstring list \<Rightarrow> bool" where
  "plain_terms terms = list_all (list_all (\<lambda>c. \<not> SyntaxCharacter c)) terms"

text \<open>
  \<^verbatim>\<open>new RegExp(source, "i")\<close>. A source \<^verbatim>\<open>(\<close>\<open>body\<close>\<^verbatim>\<open>)\b\<close> whose body has no syntax character
  but \<^verbatim>\<open>|\<close> is the alternation of the literal strings between the bars, followed by a
  word boundary. Any other source is compiled by the host, or rejected with a
  \<^verbatim>\<open>SyntaxError\<close>.
\<close>

definition new_RegExp_i :: "runtime \<Rightarrow> jsstring \<Rightarrow> exn + RegExp" where
  "new_RegExp_i rt source =
     (let n = length source; body = take (n - 4) (drop 1 source) in
      if 4 \<le> n \<and> take 1 source = [40] \<and> drop (n - 3) source = [41, 92, 98]
         \<and> list_all (\<lambda>c. c = 124 \<or> \<not> SyntaxCharacter c) body
      then Inr (RegExp (Cat (alternatives (split_on 124 body)) WordB) True)
      else (case host_RegExp rt source of
              None \<Rightarrow> Inl SyntaxError
            | Some f \<Rightarrow> Inr (Host_RegExp f)))"


section \<open>\<^verbatim>\<open>class CharacterValidator\<close>\<close>

record CharacterValidator =
  profanityRegex :: RegExp

subsection \<open>Date helpers\<close>

text \<open>
  \<^verbatim>\<open>parseISODate\<close>: the text is \<^verbatim>\<open>dateString || ""\<close>; its first three components are
  converted with \<^verbatim>\<open>Number\<close>; a component that is missing, \<open>NaN\<close> or \<open>0\<close> is falsy
  and gives \<^verbatim>\<open>Invalid Date\<close>, whatever the others are. With three truthy components, all
  exact integers, the date is built by \<^verbatim>\<open>Date.UTC\<close>; with a \<open>Float\<close> among them the
  result is the host's.
\<close>

definition falsy :: "number option \<Rightarrow> bool" where
  "falsy c = (case c of None \<Rightarrow> True | Some NaN \<Rightarrow> True | Some (Num n) \<Rightarrow> n = 0 | Some Float \<Rightarrow> False)"

definition or_empty :: "jsvalue \<Rightarrow> jsstring" where
  "or_empty v = (case v of None \<Rightarrow> [] | Some s \<Rightarrow> s)"

definition parseISODate :: "runtime \<Rightarrow> jsvalue \<Rightarrow> Date" where
  "parseISODate rt dateString =
     (let text = or_empty dateString;
          parts = map Number_str (split_on 45 text);
          y = element parts 0; m = element parts 1; d = element parts 2
      in if falsy y \<or> falsy m \<or> falsy d then Invalid_Date
         else (case (y, m, d) of
                 (Some (Num y'), Some (Num m'), Some (Num d')) \<Rightarrow> Date_UTC y' (m' - 1) d'
               | _ \<Rightarrow> float_date rt text))"

definition todayUTC :: "runtime \<Rightarrow> Date" where
  "todayUTC rt =
     Date_UTC (YearFromTime (now rt)) (MonthFromTime (now rt)) (DateFromTime (now rt))"

text \<open>
  The cutoff of both age checks:
  \<^verbatim>\<open>new Date(Date.UTC(today.getUTCFullYear() - years, today.getUTCMonth(), today.getUTCDate()))\<close>.
\<close>

definition cutoff :: "runtime \<Rightarrow> int \<Rightarrow> Date" where
  "cutoff rt years =
     (case todayUTC rt of
        Invalid_Date \<Rightarrow> Invalid_Date
      | TimeValue today \<Rightarrow>
          Date_UTC (YearFromTime today - years) (MonthFromTime today) (DateFromTime today))"

text \<open>
  The texts on which \<^verbatim>\<open>parseISODate\<close> gives up by its own check: fewer than three
  components, or one of the first three not a number or zero.
\<close>

definition missing_or_zero_component :: "jsstring \<Rightarrow> bool" where
  "missing_or_zero_component text =
     (let parts = split_on 45 text in
      length parts < 3 \<or> list_ex (\<lambda>p. Number_str p = NaN \<or> Number_str p = Num 0) (take 3 parts))"

text \<open>A comparison with \<^verbatim>\<open>Invalid Date\<close> (\<open>NaN\<close>) is false.\<close>

definition isTooYoung :: "runtime \<Rightarrow> jsvalue \<Rightarrow> int \<Rightarrow> bool" where
  "isTooYoung rt dateString minYears =
     (case parseISODate rt dateString of
        Invalid_Date \<Rightarrow> True
      | TimeValue dob \<Rightarrow>
          (case cutoff rt minYears of Invalid_Date \<Rightarrow> False | TimeValue c \<Rightarrow> dob > c))"

definition isTooOld :: "runtime \<Rightarrow> jsvalue \<Rightarrow> int \<Rightarrow> bool" where
  "isTooOld rt dateString maxYears =
     (case parseISODate rt dateString of
        Invalid_Date \<Rightarrow> True
      | TimeValue dob \<Rightarrow>
          (case cutoff rt maxYears of Invalid_Date \<Rightarrow> False | TimeValue c \<Rightarrow> dob < c))"

text \<open>The pattern \<^verbatim>\<open>/^\d{4}-\d{2}-\d{2}$/\<close>.\<close>

definition date_format :: RegExp where
  "date_format =
     RegExp (cats [Bol, Digit, Digit, Digit, Digit, Lit 45, Digit, Digit, Lit 45,
                   Digit, Digit, Eol]) False"

text \<open>
  The Gregorian calendar, for stating what the date checks accept: the length of month
  \<open>m\<close> (1 to 12) of year \<open>y\<close>, and the dates that exist.
\<close>

definition DaysInMonth :: "int \<Rightarrow> int \<Rightarrow> int" where
  "DaysInMonth y m =
     (if m = 2 then (if DaysInYear y = 366 then 29 else 28)
      else if m = 4 \<or> m = 6 \<or> m = 9 \<or> m = 11 then 30
      else 31)"

definition calendar_date :: "int \<Rightarrow> int \<Rightarrow> int \<Rightarrow> bool" where
  "calendar_date y m d \<longleftrightarrow> 1 \<le> m \<and> m \<le> 12 \<and> 1 \<le> d \<and> d \<le> DaysInMonth y m"



text \<open>
  A year, month (1 to 12) and day round-trip through date construction when the date
  built from them reads back as the same year, month and day.
\<close>

definition round_trips :: "int \<Rightarrow> int \<Rightarrow> int \<Rightarrow> bool" where
  "round_trips y m d =
     (let t = MakeDate (MakeDay (MakeFullYear y) (m - 1) d) 0 in
      YearFromTime t = y \<and> MonthFromTime t = m - 1 \<and> DateFromTime t = d)"

text \<open>
  What the format check accepts, written out: four digits, a hyphen, two digits, a
  hyphen, two digits, and nothing else.
\<close>

definition strict_format :: "jsstring \<Rightarrow> bool" where
  "strict_format s =
     (case s of
        [y1, y2, y3, y4, h1, m1, m2, h2, d1, d2] \<Rightarrow>
          DecimalDigit y1 \<and> DecimalDigit y2 \<and> DecimalDigit y3 \<and> DecimalDigit y4 \<and> h1 = 45 \<and>
          DecimalDigit m1 \<and> DecimalDigit m2 \<and> h2 = 45 \<and> DecimalDigit d1 \<and> DecimalDigit d2
      | _ \<Rightarrow> False)"

text \<open>The numbers written in a text of that format.\<close>

definition year_part :: "jsstring \<Rightarrow> int" where
  "year_part s = decimal_value (take 4 s)"

definition month_part :: "jsstring \<Rightarrow> int" where
  "month_part s = decimal_value (take 2 (drop 5 s))"

definition day_part :: "jsstring \<Rightarrow> int" where
  "day_part s = decimal_value (drop 8 s)"

text \<open>
  \<^verbatim>\<open>isValidDate\<close>. After the format check the text has three components of digits, so the
  last case of the \<open>case\<close> is never reached.
\<close>

definition isValidDate :: "runtime \<Rightarrow> jsvalue \<Rightarrow> bool" where
  "isValidDate rt dateString =
     (if \<not> RegExp_test rt date_format dateString then False
      else (case map Number_str (split_on 45 (ToString dateString)) of
              [Num y, Num m, Num d] \<Rightarrow>
                (case new_Date rt y (m - 1) d of
                   Invalid_Date \<Rightarrow> False
                 | TimeValue t \<Rightarrow>
                     getFullYear rt t = y \<and> getMonth rt t = m - 1 \<and> getDate rt t = d)
            | _ \<Rightarrow> False))"

subsection \<open>The rule table\<close>

datatype message =
    forgotten_field
  | firstname_too_short
  | firstname_too_long
  | lastname_too_short
  | lastname_too_long
  | profanity
  | invalid_date
  | age_too_young
  | age_too_old

text \<open>
  A rule is a test and a message. A test can throw: \<^verbatim>\<open>value.length\<close> on an absent
  value is a \<^verbatim>\<open>TypeError\<close>.
\<close>

record validator =
  test :: "jsvalue \<Rightarrow> exn + bool"
  message :: message

definition not_empty :: validator where
  "not_empty = \<lparr>test = (\<lambda>value. Inr (truthy value)), message = forgotten_field\<rparr>"

definition length_at_least :: "nat \<Rightarrow> message \<Rightarrow> validator" where
  "length_at_least n msg =
     \<lparr>test = (\<lambda>value. case value of None \<Rightarrow> Inl TypeError | Some s \<Rightarrow> Inr (length s \<ge> n)),
      message = msg\<rparr>"

definition length_at_most :: "nat \<Rightarrow> message \<Rightarrow> validator" where
  "length_at_most n msg =
     \<lparr>test = (\<lambda>value. case value of None \<Rightarrow> Inl TypeError | Some s \<Rightarrow> Inr (length s \<le> n)),
      message = msg\<rparr>"

definition no_profanity :: "CharacterValidator \<Rightarrow> runtime \<Rightarrow> validator" where
  "no_profanity cv rt =
     \<lparr>test = (\<lambda>value. Inr (\<not> RegExp_test rt (profanityRegex cv) value)),
      message = profanity\<rparr>"

text \<open>\<^verbatim>\<open>this.validators\<close>: the own properties of the object literal, in insertion order.\<close>

definition validators :: "CharacterValidator \<Rightarrow> runtime \<Rightarrow> (jsstring \<times> validator list) list" where
  "validators cv rt =
     [(js ''firstname'',
         [not_empty,
          length_at_least 2 firstname_too_short,
          length_at_most 16 firstname_too_long,
          no_profanity cv rt]),
      (js ''lastname'',
         [not_empty,
          length_at_least 2 lastname_too_short,
          length_at_most 16 lastname_too_long,
          no_profanity cv rt]),
      (js ''nationality'',
         [not_empty,
          no_profanity cv rt]),
      (js ''gender'',
         [not_empty]),
      (js ''date'',
         [not_empty,
          \<lparr>test = (\<lambda>value. Inr (isValidDate rt value)), message = invalid_date\<rparr>,
          \<lparr>test = (\<lambda>value. Inr (\<not> isTooYoung rt value 8)), message = age_too_young\<rparr>,
          \<lparr>test = (\<lambda>value. Inr (\<not> isTooOld rt value 100)), message = age_too_old\<rparr>])]"

subsection \<open>\<^verbatim>\<open>validateField\<close> and \<^verbatim>\<open>validateCharacter\<close>\<close>

datatype ValidationResult = Valid | Invalid jsstring message

text \<open>
  \<^verbatim>\<open>this.validators[fieldName]\<close> reads an own property or, failing that, a property
  inherited from \<^verbatim>\<open>Object.prototype\<close>: a function (or, for \<^verbatim>\<open>__proto__\<close>, the prototype
  object), which is truthy and not iterable.
\<close>

definition Object_prototype_properties :: "jsstring list" where
  "Object_prototype_properties =
     [js ''constructor'', js ''hasOwnProperty'', js ''isPrototypeOf'',
      js ''propertyIsEnumerable'', js ''toLocaleString'', js ''toString'', js ''valueOf'',
      js ''__proto__'', js ''__defineGetter__'', js ''__defineSetter__'',
      js ''__lookupGetter__'', js ''__lookupSetter__'']"

datatype property = Undefined | Validators "validator list" | Inherited

definition get_validators :: "CharacterValidator \<Rightarrow> runtime \<Rightarrow> jsstring \<Rightarrow> property" where
  "get_validators cv rt fieldName =
     (case map_of (validators cv rt) fieldName of
        Some vs \<Rightarrow> Validators vs
      | None \<Rightarrow> if fieldName \<in> set Object_prototype_properties then Inherited else Undefined)"

text \<open>The \<^verbatim>\<open>for ... of\<close> loop of \<^verbatim>\<open>validateField\<close>.\<close>

fun run_validators :: "jsstring \<Rightarrow> validator list \<Rightarrow> jsvalue \<Rightarrow> exn + ValidationResult" where
  "run_validators fieldName [] value = Inr Valid"
| "run_validators fieldName (v # vs) value =
     (case test v value of
        Inl e \<Rightarrow> Inl e
      | Inr ok \<Rightarrow>
          if \<not> ok then Inr (Invalid fieldName (message v))
          else run_validators fieldName vs value)"

definition validateField :: "CharacterValidator \<Rightarrow> runtime \<Rightarrow> jsstring \<Rightarrow> jsvalue \<Rightarrow> exn + ValidationResult" where
  "validateField cv rt fieldName value =
     (case get_validators cv rt fieldName of
        Undefined \<Rightarrow> Inr Valid
      | Inherited \<Rightarrow> Inl TypeError
      | Validators fieldValidators \<Rightarrow> run_validators fieldName fieldValidators value)"

text \<open>
  The \<^verbatim>\<open>for ... in\<close> loop of \<^verbatim>\<open>validateCharacter\<close> over the own keys of
  \<^verbatim>\<open>this.validators\<close>; the record is read at each key, an absent field is \<^verbatim>\<open>undefined\<close>.
\<close>

fun validate_fields :: "CharacterValidator \<Rightarrow> runtime \<Rightarrow> jsstring list \<Rightarrow> (jsstring \<Rightarrow> jsvalue) \<Rightarrow> exn + ValidationResult" where
  "validate_fields cv rt [] character = Inr Valid"
| "validate_fields cv rt (field # others) character =
     (case validateField cv rt field (character field) of
        Inl e \<Rightarrow> Inl e
      | Inr Valid \<Rightarrow> validate_fields cv rt others character
      | Inr (Invalid f m) \<Rightarrow> Inr (Invalid f m))"

definition validateCharacter :: "CharacterValidator \<Rightarrow> runtime \<Rightarrow> (jsstring \<Rightarrow> jsvalue) \<Rightarrow> exn + ValidationResult" where
  "validateCharacter cv rt character =
     validate_fields cv rt (map fst (validators cv rt)) character"

text \<open>The first result of a list that is not \<open>Valid\<close>, and \<open>Valid\<close> when there is none.\<close>

fun first_failure :: "(exn + ValidationResult) list \<Rightarrow> exn + ValidationResult" where
  "first_failure [] = Inr Valid"
| "first_failure (r # rs) = (if r = Inr Valid then first_failure rs else r)"

subsection \<open>\<^verbatim>\<open>initializeValidator\<close>\<close>

text \<open>
  The argument is the global \<^verbatim>\<open>profList\<close>, \<open>None\<close> when it is not defined. The result
  is the new value of the global \<^verbatim>\<open>characterValidator\<close> and the lines written with
  \<^verbatim>\<open>console.error\<close>. The pattern source is \<^verbatim>\<open>"(" + profList.join("|") + ")\\b"\<close>, whose
  last three code units are 41, 92 and 98; the terms are not escaped. When the
  constructor throws, the global is not assigned.
\<close>

definition initializeValidator :: "runtime \<Rightarrow> jsstring list option \<Rightarrow> exn + CharacterValidator \<times> jsstring list" where
  "initializeValidator rt profList =
     (case profList of
        Some terms \<Rightarrow>
          (case new_RegExp_i rt (js ''('' @ join (js ''|'') terms @ [41, 92, 98]) of
             Inl e \<Rightarrow> Inl e
           | Inr re \<Rightarrow> Inr (\<lparr>profanityRegex = re\<rparr>, []))
      | None \<Rightarrow>
          Inr (\<lparr>profanityRegex = RegExp (Cat Bol Eol) False\<rparr>,
               [js ''Profanity list not found. Validation may not work correctly.'']))"


section \<open>Calendar arithmetic\<close>

lemma div_succ:
  fixes x k :: int
  assumes "0 < k"
  shows "(x + 1) div k = x div k + (if (x + 1) mod k = 0 then 1 else 0)"
proof (cases "(x + 1) mod k = 0")
  case True
  then obtain q where q: "x + 1 = k * q"
    by (auto simp: mod_eq_0_iff_dvd)
  then have x: "x = k * (q - 1) + (k - 1)"
    by (simp add: algebra_simps)
  have "x div k = q - 1"
    using assms by (subst x) (simp add: div_pos_pos_trivial)
  moreover have "(x + 1) div k = q"
    using q assms by simp
  ultimately show ?thesis
    using True by simp
next
  case False
  define r where "r = x mod k"
  have r: "0 \<le> r" "r < k"
    using assms by (simp_all add: r_def)
  have xq: "x = k * (x div k) + r"
    by (simp add: r_def)
  have "r + 1 \<noteq> k"
  proof
    assume "r + 1 = k"
    then have "x + 1 = k * (x div k + 1)"
      using xq by (simp add: algebra_simps)
    then have "(x + 1) mod k = 0"
      by (metis mod_mult_self1_is_0)
    with False show False
      by simp
  qed
  then have r1: "r + 1 < k"
    using r by simp
  have "x + 1 = k * (x div k) + (r + 1)"
    using xq by simp
  then have "(x + 1) div k = (k * (x div k) + (r + 1)) div k"
    by metis
  also have "\<dots> = x div k"
    using r r1 assms by (simp add: div_pos_pos_trivial)
  finally show ?thesis
    using False by simp
qed

lemma mod_shift: "((x::int) - k * c) mod k = x mod k"
  using mod_diff_right_eq [of x "k * c" k] by simp

lemma DayFromYear_step: "DayFromYear (y + 1) = DayFromYear y + DaysInYear y"
proof -
  have "(y - 1969 + 1) mod 4 = y mod 4"
    using mod_shift [of y 4 492] by simp
  then have a: "(y + 1 - 1969) div 4 = (y - 1969) div 4 + (if y mod 4 = 0 then 1 else 0)"
    using div_succ [of 4 "y - 1969"] by (simp add: algebra_simps)
  have "(y - 1901 + 1) mod 100 = y mod 100"
    using mod_shift [of y 100 19] by simp
  then have b: "(y + 1 - 1901) div 100 = (y - 1901) div 100 + (if y mod 100 = 0 then 1 else 0)"
    using div_succ [of 100 "y - 1901"] by (simp add: algebra_simps)
  have "(y - 1601 + 1) mod 400 = y mod 400"
    using mod_shift [of y 400 4] by simp
  then have c: "(y + 1 - 1601) div 400 = (y - 1601) div 400 + (if y mod 400 = 0 then 1 else 0)"
    using div_succ [of 400 "y - 1601"] by (simp add: algebra_simps)
  have d: "y mod 100 = 0" if "y mod 400 = 0"
  proof -
    from that obtain q where "y = 400 * q"
      by (auto simp: mod_eq_0_iff_dvd)
    then have "y = 100 * (4 * q)"
      by simp
    then show ?thesis
      by (metis mod_mult_self1_is_0)
  qed
  have e: "y mod 4 = 0" if "y mod 100 = 0"
  proof -
    from that obtain q where "y = 100 * q"
      by (auto simp: mod_eq_0_iff_dvd)
    then have "y = 4 * (25 * q)"
      by simp
    then show ?thesis
      by (metis mod_mult_self1_is_0)
  qed
  show ?thesis
    unfolding DayFromYear_def DaysInYear_def a b c using d e by auto
qed

lemma DaysInYear_cases: "DaysInYear y = 365 \<or> DaysInYear y = 366"
  by (simp add: DaysInYear_def)

lemma year_length:
  "DayFromYear y + 365 \<le> DayFromYear (y + 1)" "DayFromYear (y + 1) \<le> DayFromYear y + 366"
  using DayFromYear_step [of y] DaysInYear_cases [of y] by auto

lemma DayFromYear_lower: "a \<le> b \<Longrightarrow> DayFromYear a + 365 * (b - a) \<le> DayFromYear b"
proof -
  assume ab: "a \<le> b"
  have "DayFromYear a + 365 * int n \<le> DayFromYear (a + int n)" for n
  proof (induction n)
    case 0
    show ?case by simp
  next
    case (Suc n)
    have eq: "a + int (Suc n) = a + int n + 1"
      by simp
    have "DayFromYear (a + int n) + 365 \<le> DayFromYear (a + int (Suc n))"
      unfolding eq by (rule year_length(1))
    moreover have "365 * int (Suc n) = 365 * int n + 365"
      by simp
    ultimately show ?case
      using Suc by linarith
  qed
  from this [of "nat (b - a)"] ab show ?thesis
    by simp
qed

lemma DayFromYear_upper: "a \<le> b \<Longrightarrow> DayFromYear b \<le> DayFromYear a + 366 * (b - a)"
proof -
  assume ab: "a \<le> b"
  have "DayFromYear (a + int n) \<le> DayFromYear a + 366 * int n" for n
  proof (induction n)
    case 0
    show ?case by simp
  next
    case (Suc n)
    have eq: "a + int (Suc n) = a + int n + 1"
      by simp
    have "DayFromYear (a + int (Suc n)) \<le> DayFromYear (a + int n) + 366"
      unfolding eq by (rule year_length(2))
    moreover have "366 * int (Suc n) = 366 * int n + 366"
      by simp
    ultimately show ?case
      using Suc by linarith
  qed
  from this [of "nat (b - a)"] ab show ?thesis
    by simp
qed

lemma DayFromYear_mono: "a \<le> b \<Longrightarrow> DayFromYear a \<le> DayFromYear b"
  using DayFromYear_lower [of a b] by simp

lemma DayFromYear_1970: "DayFromYear 1970 = 0"
  by (simp add: DayFromYear_def)

lemma div_bounds:
  fixes x k :: int
  assumes "0 < k"
  shows "k * (x div k) \<le> x" and "x < k * (x div k) + k"
proof -
  have "x = k * (x div k) + x mod k"
    by simp
  moreover have "0 \<le> x mod k" "x mod k < k"
    using assms by simp_all
  ultimately show "k * (x div k) \<le> x" and "x < k * (x div k) + k"
    by linarith+
qed

lemma year_search_start: "DayFromYear (1970 + (if 0 \<le> d then d div 366 else d div 365)) \<le> d"
proof (cases "0 \<le> d")
  case True
  then have "0 \<le> d div 366"
    by (simp add: pos_imp_zdiv_nonneg_iff)
  then show ?thesis
    using True DayFromYear_upper [of 1970 "1970 + d div 366"] div_bounds(1) [of 366 d]
    by (simp add: DayFromYear_1970)
next
  case False
  then have "d div 365 < 0"
    by (simp add: div_neg_pos_less0)
  then show ?thesis
    using False DayFromYear_lower [of "1970 + d div 365" 1970] div_bounds(1) [of 365 d]
    by (simp add: DayFromYear_1970)
qed

lemma year_search_bounds:
  "DayFromYear y \<le> day \<Longrightarrow>
   DayFromYear (year_search day y) \<le> day \<and> day < DayFromYear (year_search day y + 1)"
proof (induction day y rule: year_search.induct)
  case (1 day y)
  show ?case
  proof (cases "DayFromYear (y + 1) \<le> day")
    case True
    with "1.IH" show ?thesis
      by (subst (1 2) year_search.simps) simp
  next
    case False
    with "1.prems" show ?thesis
      by (subst (1 2) year_search.simps) simp
  qed
qed

lemma year_of_day_lower: "DayFromYear (year_of_day d) \<le> d"
  using year_search_bounds [OF year_search_start [of d]] by (simp add: year_of_day_def)

lemma year_of_day_upper: "d < DayFromYear (year_of_day d + 1)"
  using year_search_bounds [OF year_search_start [of d]] by (simp add: year_of_day_def)

text \<open>The year of a day is the one whose days contain it.\<close>

lemma year_of_day_unique:
  assumes "DayFromYear y \<le> d" and "d < DayFromYear (y + 1)"
  shows "year_of_day d = y"
proof (rule ccontr)
  assume ne: "year_of_day d \<noteq> y"
  show False
  proof (cases "year_of_day d < y")
    case True
    then have "DayFromYear (year_of_day d + 1) \<le> DayFromYear y"
      by (intro DayFromYear_mono) simp
    with assms(1) year_of_day_upper [of d] show False
      by simp
  next
    case False
    with ne have "DayFromYear (y + 1) \<le> DayFromYear (year_of_day d)"
      by (intro DayFromYear_mono) simp
    with assms(2) year_of_day_lower [of d] show False
      by simp
  qed
qed

lemma Day_MakeDate: "Day (MakeDate d 0) = d"
  by (simp add: Day_def MakeDate_def msPerDay_def)


section \<open>The format check of \<^verbatim>\<open>isValidDate\<close>\<close>

lemma search_Bol_Some: "\<not> search cz (Cat Bol q) (Some x) s"
  by (induction s arbitrary: x) simp_all

lemma search_Bol_None: "search cz (Cat Bol q) None s \<longleftrightarrow> matches cz q (None, s) \<noteq> []"
  by (cases s) (simp_all add: search_Bol_Some)

lemma matches_Cat_Digit:
  "matches cz (Cat Digit q) (prev, s) =
     (case s of [] \<Rightarrow> [] | x # xs \<Rightarrow> if DecimalDigit x then matches cz q (Some x, xs) else [])"
  by (simp split: list.splits)

lemma matches_Cat_Lit:
  "matches cz (Cat (Lit c) q) (prev, s) =
     (case s of [] \<Rightarrow> [] | x # xs \<Rightarrow> if cz x = cz c then matches cz q (Some x, xs) else [])"
  by (simp split: list.splits)

lemma matches_Cat_Eol_Eps:
  "matches cz (Cat Eol Eps) (prev, s) = (if s = [] then [(prev, s)] else [])"
  by simp

lemma date_format_test: "RegExp_test rt date_format v \<longleftrightarrow> strict_format (ToString v)"
  unfolding RegExp_test_def date_format_def cats_def strict_format_def
  by (simp add: search_Bol_None matches_Cat_Digit matches_Cat_Lit matches_Cat_Eol_Eps
      del: matches.simps split: list.splits)


section \<open>Reading a calendar date back from a time value\<close>

lemma DayWithinYear_range: "0 \<le> DayWithinYear t" "DayWithinYear t < DaysInYear (YearFromTime t)"
  using year_of_day_lower [of "Day t"] year_of_day_upper [of "Day t"]
    DayFromYear_step [of "YearFromTime t"]
  by (simp_all add: DayWithinYear_def YearFromTime_def)

lemma InLeapYear_cases: "InLeapYear t = 0 \<or> InLeapYear t = 1"
  by (simp add: InLeapYear_def)

lemma DaysInYear_InLeapYear: "DaysInYear (YearFromTime t) = 365 + InLeapYear t"
  using DaysInYear_cases [of "YearFromTime t"] by (auto simp: InLeapYear_def)

lemma MonthFromTime_range: "0 \<le> MonthFromTime t" "MonthFromTime t \<le> 11"
  by (simp_all add: MonthFromTime_def Let_def)

text \<open>The day within the year lies in the month that \<open>MonthFromTime\<close> returns.\<close>

lemma month_contains_day:
  "month_start (InLeapYear t) (MonthFromTime t) \<le> DayWithinYear t"
  "DayWithinYear t < month_start (InLeapYear t) (MonthFromTime t + 1)"
proof -
  define w where "w = DayWithinYear t"
  define l where "l = InLeapYear t"
  have w: "0 \<le> w" "w < 365 + l"
    using DayWithinYear_range [of t] by (simp_all add: w_def l_def DaysInYear_InLeapYear)
  have l: "l = 0 \<or> l = 1"
    using InLeapYear_cases [of t] by (simp add: l_def)
  show "month_start (InLeapYear t) (MonthFromTime t) \<le> DayWithinYear t"
    unfolding MonthFromTime_def Let_def w_def [symmetric] l_def [symmetric]
    using w l by (auto simp: month_start_def)
  show "DayWithinYear t < month_start (InLeapYear t) (MonthFromTime t + 1)"
    unfolding MonthFromTime_def Let_def w_def [symmetric] l_def [symmetric]
    using w l by (auto simp: month_start_def)
qed

lemma month_cases:
  fixes m :: int
  assumes "0 \<le> m" "m \<le> 11"
  obtains "m = 0" | "m = 1" | "m = 2" | "m = 3" | "m = 4" | "m = 5" | "m = 6" | "m = 7"
    | "m = 8" | "m = 9" | "m = 10" | "m = 11"
proof -
  have "m = 0 \<or> m = 1 \<or> m = 2 \<or> m = 3 \<or> m = 4 \<or> m = 5 \<or> m = 6 \<or> m = 7
    \<or> m = 8 \<or> m = 9 \<or> m = 10 \<or> m = 11"
    using assms by presburger
  with that show thesis
    by blast
qed

lemma DateFromTime_eq:
  "DateFromTime t = DayWithinYear t - month_start (InLeapYear t) (MonthFromTime t) + 1"
proof -
  define k where "k = MonthFromTime t"
  have "0 \<le> k" "k \<le> 11"
    using MonthFromTime_range [of t] by (simp_all add: k_def)
  then show ?thesis
    unfolding DateFromTime_def Let_def k_def [symmetric]
    by (cases k rule: month_cases) (simp_all add: month_start_def)
qed

lemma month_length:
  assumes "0 \<le> m" "m \<le> 11"
  shows "month_start (if DaysInYear y = 366 then 1 else 0) (m + 1)
         - month_start (if DaysInYear y = 366 then 1 else 0) m = DaysInMonth y (m + 1)"
  using assms by (cases m rule: month_cases) (simp_all add: month_start_def DaysInMonth_def)

text \<open>Every time value reads back as a date of the calendar.\<close>

lemma time_is_calendar_date:
  "calendar_date (YearFromTime t) (MonthFromTime t + 1) (DateFromTime t)"
proof -
  have "DateFromTime t \<le> month_start (InLeapYear t) (MonthFromTime t + 1)
          - month_start (InLeapYear t) (MonthFromTime t)"
    using month_contains_day(2) [of t] by (simp add: DateFromTime_eq)
  also have "\<dots> = DaysInMonth (YearFromTime t) (MonthFromTime t + 1)"
    unfolding InLeapYear_def by (rule month_length) (rule MonthFromTime_range)+
  finally show ?thesis
    using MonthFromTime_range [of t] month_contains_day(1) [of t]
    by (simp add: calendar_date_def DateFromTime_eq)
qed

lemma month_start_mono:
  assumes "0 \<le> a" "a \<le> b" "b \<le> 12" "l = 0 \<or> l = 1"
  shows "month_start l a \<le> month_start l b"
proof -
  have "month_start l a \<le> month_start l (a + int n)" if "a + int n \<le> 12" for n
    using that
  proof (induction n)
    case 0
    show ?case by simp
  next
    case (Suc n)
    have eq: "a + int (Suc n) = a + int n + 1"
      by simp
    have "0 \<le> a + int n" "a + int n \<le> 11"
      using Suc.prems assms(1) by simp_all
    then have "month_start l (a + int n) \<le> month_start l (a + int (Suc n))"
      unfolding eq using assms(4)
      by (cases "a + int n" rule: month_cases) (auto simp: month_start_def)
    moreover have "month_start l a \<le> month_start l (a + int n)"
      using Suc by simp
    ultimately show ?case
      by simp
  qed
  from this [of "nat (b - a)"] assms show ?thesis
    by simp
qed

text \<open>A date of the calendar, given by its day number, reads back as itself.\<close>

lemma calendar_date_reads_back:
  assumes date: "calendar_date y m d"
    and day: "Day t = DayFromYear y + month_start (if DaysInYear y = 366 then 1 else 0) (m - 1) + d - 1"
  shows "YearFromTime t = y" and "MonthFromTime t = m - 1" and "DateFromTime t = d"
proof -
  define l :: int where "l = (if DaysInYear y = 366 then 1 else 0)"
  have l: "l = 0 \<or> l = 1"
    by (simp add: l_def)
  have m: "0 \<le> m - 1" "m - 1 \<le> 11" and d: "1 \<le> d" "d \<le> DaysInMonth y m"
    using date by (simp_all add: calendar_date_def)
  have len: "month_start l m - month_start l (m - 1) = DaysInMonth y m"
    using month_length [OF m, of y] by (simp add: l_def)
  have "month_start l 0 \<le> month_start l (m - 1)"
    using m l by (intro month_start_mono) simp_all
  then have lo: "0 \<le> month_start l (m - 1)"
    by (simp add: month_start_def)
  have "month_start l m \<le> month_start l 12"
    using m l by (intro month_start_mono) simp_all
  then have hi: "month_start l m \<le> 365 + l"
    by (simp add: month_start_def)
  have year_len: "DaysInYear y = 365 + l"
    using DaysInYear_cases [of y] by (auto simp: l_def)
  have day': "Day t = DayFromYear y + month_start l (m - 1) + d - 1"
    using day by (simp add: l_def)
  have "DayFromYear y \<le> Day t" and "Day t < DayFromYear (y + 1)"
    using day' lo hi len d by (simp_all add: DayFromYear_step year_len)
  then show y: "YearFromTime t = y"
    unfolding YearFromTime_def by (rule year_of_day_unique)
  have leap: "InLeapYear t = l"
    by (simp add: InLeapYear_def y l_def)
  have w: "DayWithinYear t = month_start l (m - 1) + d - 1"
    using day' by (simp add: DayWithinYear_def y)
  have before: "month_start l (m - 1) \<le> DayWithinYear t"
    and after: "DayWithinYear t < month_start l m"
    using w d len by simp_all
  show mm: "MonthFromTime t = m - 1"
  proof (rule ccontr)
    assume ne: "MonthFromTime t \<noteq> m - 1"
    show False
    proof (cases "MonthFromTime t < m - 1")
      case True
      then have "month_start l (MonthFromTime t + 1) \<le> month_start l (m - 1)"
        using MonthFromTime_range [of t] m l by (intro month_start_mono) simp_all
      with month_contains_day(2) [of t] before show False
        by (simp add: leap)
    next
      case False
      with ne have "month_start l m \<le> month_start l (MonthFromTime t)"
        using MonthFromTime_range [of t] m l by (intro month_start_mono) simp_all
      with month_contains_day(1) [of t] after show False
        by (simp add: leap)
    qed
  qed
  show "DateFromTime t = d"
    by (simp add: DateFromTime_eq mm leap w)
qed


section \<open>\<^verbatim>\<open>isValidDate\<close> and the calendar\<close>

lemma year_of_day_ge: "DayFromYear a \<le> n \<Longrightarrow> a \<le> year_of_day n"
proof (rule ccontr)
  assume le: "DayFromYear a \<le> n" and "\<not> a \<le> year_of_day n"
  then have "DayFromYear (year_of_day n + 1) \<le> DayFromYear a"
    by (intro DayFromYear_mono) simp
  with le year_of_day_upper [of n] show False
    by simp
qed

lemma month_start_range:
  assumes "0 \<le> m" "m \<le> 11" "l = 0 \<or> l = 1"
  shows "0 \<le> month_start l m" and "month_start l m \<le> 335"
  using assms by (cases m rule: month_cases; auto simp: month_start_def)+

lemma MakeDay_in_year:
  assumes "0 \<le> m" "m \<le> 11"
  shows "MakeDay y m d = DayFromYear y + month_start (if DaysInYear y = 366 then 1 else 0) m + d - 1"
  using assms by (simp add: MakeDay_def div_pos_pos_trivial mod_pos_pos_trivial)

text \<open>
  The round trip succeeds exactly on the dates of the calendar from the year 100 on: a
  year below 100 is read as 1900 + year and never comes back.
\<close>

lemma round_trips_iff:
  assumes "0 \<le> y" "0 \<le> m" "0 \<le> d"
  shows "round_trips y m d \<longleftrightarrow> 100 \<le> y \<and> calendar_date y m d"
proof
  assume rt: "round_trips y m d"
  define t where "t = MakeDate (MakeDay (MakeFullYear y) (m - 1) d) 0"
  have reads: "YearFromTime t = y" "MonthFromTime t = m - 1" "DateFromTime t = d"
    using rt by (simp_all add: round_trips_def t_def Let_def)
  have date: "calendar_date y m d"
    using time_is_calendar_date [of t] by (simp add: reads)
  have "100 \<le> y"
  proof (rule ccontr)
    assume "\<not> 100 \<le> y"
    with assms(1) have full: "MakeFullYear y = 1900 + y"
      by (simp add: MakeFullYear_def)
    define q where "q = (m - 1) div 12"
    define l :: int where "l = (if DaysInYear (1900 + y + q) = 366 then 1 else 0)"
    have "- 1 \<le> q"
      using div_bounds(2) [of 12 "m - 1"] assms(2) by (simp add: q_def)
    then have "DayFromYear 1899 \<le> DayFromYear (1900 + y + q)"
      using assms(1) by (intro DayFromYear_mono) simp
    moreover have "0 \<le> month_start l ((m - 1) mod 12)"
      by (rule month_start_range) (simp_all add: l_def)
    moreover have "1 \<le> d"
      using date by (simp add: calendar_date_def)
    ultimately have "DayFromYear 1899 \<le> Day t"
      by (simp add: t_def Day_MakeDate MakeDay_def full q_def l_def Let_def)
    then have "1899 \<le> YearFromTime t"
      unfolding YearFromTime_def by (rule year_of_day_ge)
    with reads(1) \<open>\<not> 100 \<le> y\<close> show False
      by simp
  qed
  with date show "100 \<le> y \<and> calendar_date y m d"
    by simp
next
  assume ok: "100 \<le> y \<and> calendar_date y m d"
  then have m: "0 \<le> m - 1" "m - 1 \<le> 11"
    by (simp_all add: calendar_date_def)
  have full: "MakeFullYear y = y"
    using ok by (simp add: MakeFullYear_def)
  have "Day (MakeDate (MakeDay y (m - 1) d) 0)
      = DayFromYear y + month_start (if DaysInYear y = 366 then 1 else 0) (m - 1) + d - 1"
    by (simp add: Day_MakeDate MakeDay_in_year [OF m])
  from calendar_date_reads_back [OF _ this] ok show "round_trips y m d"
    by (simp add: round_trips_def full Let_def)
qed

lemma same_day:
  assumes "Day t = Day t'"
  shows "YearFromTime t = YearFromTime t'" and "MonthFromTime t = MonthFromTime t'"
    and "DateFromTime t = DateFromTime t'"
proof -
  show y: "YearFromTime t = YearFromTime t'"
    by (simp add: YearFromTime_def assms)
  have l: "InLeapYear t = InLeapYear t'"
    by (simp add: InLeapYear_def y)
  have w: "DayWithinYear t = DayWithinYear t'"
    by (simp add: DayWithinYear_def y assms)
  show mm: "MonthFromTime t = MonthFromTime t'"
    by (simp add: MonthFromTime_def l w)
  show "DateFromTime t = DateFromTime t'"
    by (simp add: DateFromTime_def l w mm)
qed

lemma DayFromYear_range:
  assumes "0 \<le> y" "y \<le> 20000"
  shows "- 1000000 < DayFromYear y" and "DayFromYear y < 7000000"
proof -
  show "- 1000000 < DayFromYear y"
  proof (cases "y \<le> 1970")
    case True
    from DayFromYear_upper [OF this] assms(1) show ?thesis
      by (simp add: DayFromYear_1970)
  next
    case False
    then have "DayFromYear 1970 \<le> DayFromYear y"
      by (intro DayFromYear_mono) simp
    then show ?thesis
      by (simp add: DayFromYear_1970)
  qed
  show "DayFromYear y < 7000000"
  proof (cases "1970 \<le> y")
    case True
    from DayFromYear_upper [OF this] assms(2) show ?thesis
      by (simp add: DayFromYear_1970)
  next
    case False
    then have "DayFromYear y \<le> DayFromYear 1970"
      by (intro DayFromYear_mono) simp
    then show ?thesis
      by (simp add: DayFromYear_1970)
  qed
qed

lemma MakeDay_range:
  assumes "0 \<le> y" "y \<le> 9999" "0 \<le> m" "m \<le> 99" "0 \<le> d" "d \<le> 99"
  shows "\<bar>MakeDay (MakeFullYear y) (m - 1) d\<bar> < 100000000"
proof -
  define q where "q = (m - 1) div 12"
  define ym where "ym = MakeFullYear y + q"
  define l :: int where "l = (if DaysInYear ym = 366 then 1 else 0)"
  have q: "- 1 \<le> q" "q \<le> 8"
    using div_bounds [of 12 "m - 1"] assms(3,4) by (simp_all add: q_def)
  have "100 \<le> MakeFullYear y" "MakeFullYear y \<le> 9999"
    using assms(1,2) by (simp_all add: MakeFullYear_def)
  then have "0 \<le> ym" "ym \<le> 20000"
    using q by (simp_all add: ym_def)
  from DayFromYear_range [OF this]
  have a: "- 1000000 < DayFromYear ym" "DayFromYear ym < 7000000" .
  have b: "0 \<le> month_start l ((m - 1) mod 12)" "month_start l ((m - 1) mod 12) \<le> 335"
    by (rule month_start_range; simp add: l_def)+
  have "MakeDay (MakeFullYear y) (m - 1) d
      = DayFromYear ym + month_start l ((m - 1) mod 12) + d - 1"
    by (simp add: MakeDay_def Let_def ym_def q_def l_def)
  with a b assms(5,6) show ?thesis
    by simp
qed

lemma Day_times_msPerDay: "Day (k * msPerDay) = k"
  by (simp add: Day_def msPerDay_def)

lemma zone_new_Date:
  assumes "zone_keeps_days rt" and "\<bar>MakeDay (MakeFullYear y) m d\<bar> < 100000000"
  shows "\<exists>t. new_Date rt y m d = TimeValue t
    \<and> Day (LocalTime rt t) = Day (MakeDate (MakeDay (MakeFullYear y) m d) 0)"
  using assms unfolding zone_keeps_days_def new_Date_def TimeClip_def
  by (auto simp: MakeDate_def Day_times_msPerDay)

lemma digit_not_space: "DecimalDigit c \<Longrightarrow> \<not> StrWhiteSpaceChar c"
  by (auto simp: DecimalDigit_def StrWhiteSpaceChar_def)

lemma digit_value: "DecimalDigit c \<Longrightarrow> 0 \<le> int c - 48 \<and> int c - 48 \<le> 9"
  by (auto simp: DecimalDigit_def)

lemma Number_str_4_digits:
  assumes "DecimalDigit a" "DecimalDigit b" "DecimalDigit c" "DecimalDigit d"
  shows "Number_str [a, b, c, d] = Num (decimal_value [a, b, c, d])"
    and "0 \<le> decimal_value [a, b, c, d]" and "decimal_value [a, b, c, d] \<le> 9999"
  using assms digit_value [of a] digit_value [of b] digit_value [of c] digit_value [of d]
  by (simp_all add: Number_str_def trim_def digit_not_space DecimalDigits_def decimal_value_def)

lemma Number_str_2_digits:
  assumes "DecimalDigit a" "DecimalDigit b"
  shows "Number_str [a, b] = Num (decimal_value [a, b])"
    and "0 \<le> decimal_value [a, b]" and "decimal_value [a, b] \<le> 99"
  using assms digit_value [of a] digit_value [of b]
  by (simp_all add: Number_str_def trim_def digit_not_space DecimalDigits_def decimal_value_def)

lemma digit_not_hyphen: "DecimalDigit c \<Longrightarrow> c \<noteq> 45"
  by (auto simp: DecimalDigit_def)

lemma strict_format_parts:
  assumes "strict_format s"
  shows "map Number_str (split_on 45 s) = [Num (year_part s), Num (month_part s), Num (day_part s)]"
    and "0 \<le> year_part s" "year_part s \<le> 9999"
    and "0 \<le> month_part s" "month_part s \<le> 99"
    and "0 \<le> day_part s" "day_part s \<le> 99"
proof -
  from assms obtain y1 y2 y3 y4 m1 m2 d1 d2 where
    s: "s = [y1, y2, y3, y4, 45, m1, m2, 45, d1, d2]"
    and y: "DecimalDigit y1" "DecimalDigit y2" "DecimalDigit y3" "DecimalDigit y4"
    and m: "DecimalDigit m1" "DecimalDigit m2"
    and d: "DecimalDigit d1" "DecimalDigit d2"
    by (auto simp: strict_format_def split: list.splits)
  have split: "split_on 45 s = [[y1, y2, y3, y4], [m1, m2], [d1, d2]]"
    using y m d by (simp add: s digit_not_hyphen)
  show "map Number_str (split_on 45 s) = [Num (year_part s), Num (month_part s), Num (day_part s)]"
    by (simp add: split Number_str_4_digits(1) [OF y] Number_str_2_digits(1) [OF m]
        Number_str_2_digits(1) [OF d]) (simp add: s year_part_def month_part_def day_part_def)
  show "0 \<le> year_part s" "year_part s \<le> 9999"
    using Number_str_4_digits(2,3) [OF y] by (simp_all add: s year_part_def)
  show "0 \<le> month_part s" "month_part s \<le> 99"
    using Number_str_2_digits(2,3) [OF m] by (simp_all add: s month_part_def)
  show "0 \<le> day_part s" "day_part s \<le> 99"
    using Number_str_2_digits(2,3) [OF d] by (simp_all add: s day_part_def)
qed

text \<open>
  In a zone that keeps days, \<^verbatim>\<open>isValidDate\<close> is the format check followed by the round
  trip of the three numbers.
\<close>

lemma isValidDate_round_trip:
  assumes zone: "zone_keeps_days rt"
  shows "isValidDate rt v \<longleftrightarrow>
    strict_format (ToString v)
    \<and> round_trips (year_part (ToString v)) (month_part (ToString v)) (day_part (ToString v))"
proof (cases "strict_format (ToString v)")
  case False
  then show ?thesis
    by (simp add: isValidDate_def date_format_test)
next
  case True
  define s where "s = ToString v"
  note parts = strict_format_parts [OF True, folded s_def]
  have "\<bar>MakeDay (MakeFullYear (year_part s)) (month_part s - 1) (day_part s)\<bar> < 100000000"
    by (rule MakeDay_range) (rule parts)+
  from zone_new_Date [OF zone this] obtain t where
    t: "new_Date rt (year_part s) (month_part s - 1) (day_part s) = TimeValue t"
    and day: "Day (LocalTime rt t)
      = Day (MakeDate (MakeDay (MakeFullYear (year_part s)) (month_part s - 1) (day_part s)) 0)"
    by blast
  show ?thesis
    using True
    by (simp add: isValidDate_def date_format_test s_def [symmetric] parts(1) t
        getFullYear_def getMonth_def getDate_def same_day [OF day] round_trips_def Let_def)
qed


section \<open>\<^verbatim>\<open>validateField\<close>, field by field\<close>

lemma validateField_firstname:
  "validateField cv rt (js ''firstname'') v =
     (case v of
        None \<Rightarrow> Inr (Invalid (js ''firstname'') forgotten_field)
      | Some s \<Rightarrow>
          if s = [] then Inr (Invalid (js ''firstname'') forgotten_field)
          else if length s < 2 then Inr (Invalid (js ''firstname'') firstname_too_short)
          else if 16 < length s then Inr (Invalid (js ''firstname'') firstname_too_long)
          else if RegExp_test rt (profanityRegex cv) v
            then Inr (Invalid (js ''firstname'') profanity)
          else Inr Valid)"
  by (simp add: validateField_def get_validators_def validators_def not_empty_def truthy_def
      length_at_least_def length_at_most_def no_profanity_def split: option.splits)

lemma validateField_lastname:
  "validateField cv rt (js ''lastname'') v =
     (case v of
        None \<Rightarrow> Inr (Invalid (js ''lastname'') forgotten_field)
      | Some s \<Rightarrow>
          if s = [] then Inr (Invalid (js ''lastname'') forgotten_field)
          else if length s < 2 then Inr (Invalid (js ''lastname'') lastname_too_short)
          else if 16 < length s then Inr (Invalid (js ''lastname'') lastname_too_long)
          else if RegExp_test rt (profanityRegex cv) v
            then Inr (Invalid (js ''lastname'') profanity)
          else Inr Valid)"
  by (simp add: validateField_def get_validators_def validators_def not_empty_def truthy_def
      length_at_least_def length_at_most_def no_profanity_def split: option.splits)

lemma validateField_nationality:
  "validateField cv rt (js ''nationality'') v =
     (if \<not> truthy v then Inr (Invalid (js ''nationality'') forgotten_field)
      else if RegExp_test rt (profanityRegex cv) v
        then Inr (Invalid (js ''nationality'') profanity)
      else Inr Valid)"
  by (simp add: validateField_def get_validators_def validators_def not_empty_def
      no_profanity_def)

lemma validateField_gender:
  "validateField cv rt (js ''gender'') v =
     (if \<not> truthy v then Inr (Invalid (js ''gender'') forgotten_field) else Inr Valid)"
  by (simp add: validateField_def get_validators_def validators_def not_empty_def)

lemma validateField_date:
  "validateField cv rt (js ''date'') v =
     (if \<not> truthy v then Inr (Invalid (js ''date'') forgotten_field)
      else if \<not> isValidDate rt v then Inr (Invalid (js ''date'') invalid_date)
      else if isTooYoung rt v 8 then Inr (Invalid (js ''date'') age_too_young)
      else if isTooOld rt v 100 then Inr (Invalid (js ''date'') age_too_old)
      else Inr Valid)"
  by (simp add: validateField_def get_validators_def validators_def not_empty_def)

lemma validators_keys:
  "map fst (validators cv rt) =
     [js ''firstname'', js ''lastname'', js ''nationality'', js ''gender'', js ''date'']"
  by (simp add: validators_def)

lemma validateField_unknown:
  assumes "fieldName \<notin> set (map fst (validators cv rt))"
    and "fieldName \<notin> set Object_prototype_properties"
  shows "validateField cv rt fieldName v = Inr Valid"
proof -
  have "map_of (validators cv rt) fieldName = None"
    using assms(1) by (simp add: map_of_eq_None_iff)
  with assms(2) show ?thesis
    by (simp add: validateField_def get_validators_def)
qed

lemma inherited_not_own:
  "\<forall>p \<in> set Object_prototype_properties.
     p \<notin> set [js ''firstname'', js ''lastname'', js ''nationality'', js ''gender'', js ''date'']"
  by (simp add: Object_prototype_properties_def)

lemma validateField_inherited:
  assumes "fieldName \<in> set Object_prototype_properties"
  shows "validateField cv rt fieldName v = Inl TypeError"
proof -
  have "fieldName \<notin> set (map fst (validators cv rt))"
    unfolding validators_keys using assms inherited_not_own by blast
  then have "map_of (validators cv rt) fieldName = None"
    by (simp add: map_of_eq_None_iff)
  with assms show ?thesis
    by (simp add: validateField_def get_validators_def)
qed


section \<open>The date rules\<close>

lemma zone_utc_host: "zone_keeps_days (utc_host t)"
  by (auto simp: zone_keeps_days_def utc_host_def Day_times_msPerDay) (simp add: msPerDay_def)

lemma isValidDate_calendar:
  assumes "zone_keeps_days rt"
  shows "isValidDate rt v \<longleftrightarrow>
    strict_format (ToString v) \<and> 100 \<le> year_part (ToString v)
    \<and> calendar_date (year_part (ToString v)) (month_part (ToString v)) (day_part (ToString v))"
proof (cases "strict_format (ToString v)")
  case True
  note parts = strict_format_parts [OF True]
  show ?thesis
    unfolding isValidDate_round_trip [OF assms]
    using round_trips_iff [OF parts(2) parts(4) parts(6)] by simp
next
  case False
  then show ?thesis
    by (simp add: isValidDate_round_trip [OF assms])
qed

lemma strict_format_not_empty: "strict_format s \<Longrightarrow> s \<noteq> []"
  by (auto simp: strict_format_def)

text \<open>
  C3. \<^verbatim>\<open>isValidDate\<close> accepts a string exactly when it has the shape of four digits, a
  hyphen, two digits, a hyphen and two digits, and its three numbers round-trip through
  date construction; on strings of that shape the round trip succeeds exactly for the
  dates of the calendar from the year 100 on. So 2023-02-29, 2023-13-01 and 2023-04-31
  are rejected and 2024-02-29 is accepted. (The constructor and the getters work in local
  time: the zone is one that keeps days.)
\<close>

theorem isValidDate_format_and_round_trip:
  assumes "zone_keeps_days rt"
  shows "(isValidDate rt (Some s) \<longleftrightarrow>
            strict_format s \<and> round_trips (year_part s) (month_part s) (day_part s))
    \<and> (strict_format s \<longrightarrow>
          (round_trips (year_part s) (month_part s) (day_part s) \<longleftrightarrow>
             100 \<le> year_part s \<and> calendar_date (year_part s) (month_part s) (day_part s)))
    \<and> \<not> isValidDate rt (Some (js ''2023-02-29''))
    \<and> isValidDate rt (Some (js ''2024-02-29''))
    \<and> \<not> isValidDate rt (Some (js ''2023-13-01''))
    \<and> \<not> isValidDate rt (Some (js ''2023-04-31''))"
proof -
  have a: "isValidDate rt (Some s) \<longleftrightarrow>
      strict_format s \<and> round_trips (year_part s) (month_part s) (day_part s)"
    using isValidDate_round_trip [OF assms, of "Some s"] by (simp add: ToString_def)
  have b: "round_trips (year_part s) (month_part s) (day_part s) \<longleftrightarrow>
      100 \<le> year_part s \<and> calendar_date (year_part s) (month_part s) (day_part s)"
    if "strict_format s"
    using strict_format_parts [OF that] by (intro round_trips_iff)
  have c: "\<not> isValidDate rt (Some (js ''2023-02-29''))"
    by (simp add: isValidDate_calendar [OF assms] ToString_def strict_format_def
        DecimalDigit_def year_part_def month_part_def day_part_def decimal_value_def
        calendar_date_def DaysInMonth_def DaysInYear_def)
  have d: "isValidDate rt (Some (js ''2024-02-29''))"
    by (simp add: isValidDate_calendar [OF assms] ToString_def strict_format_def
        DecimalDigit_def year_part_def month_part_def day_part_def decimal_value_def
        calendar_date_def DaysInMonth_def DaysInYear_def)
  have e: "\<not> isValidDate rt (Some (js ''2023-13-01''))"
    by (simp add: isValidDate_calendar [OF assms] ToString_def strict_format_def
        DecimalDigit_def year_part_def month_part_def day_part_def decimal_value_def
        calendar_date_def DaysInMonth_def DaysInYear_def)
  have f: "\<not> isValidDate rt (Some (js ''2023-04-31''))"
    by (simp add: isValidDate_calendar [OF assms] ToString_def strict_format_def
        DecimalDigit_def year_part_def month_part_def day_part_def decimal_value_def
        calendar_date_def DaysInMonth_def DaysInYear_def)
  from a b c d e f show ?thesis
    by blast
qed

text \<open>The theorem in the UTC zone, at the text 2024-02-29.\<close>

theorem isValidDate_format_and_round_trip_witness:
  "zone_keeps_days (utc_host 0)
   \<and> strict_format (js ''2024-02-29'')
   \<and> round_trips (year_part (js ''2024-02-29'')) (month_part (js ''2024-02-29''))
        (day_part (js ''2024-02-29''))
   \<and> isValidDate (utc_host 0) (Some (js ''2024-02-29''))
   \<and> \<not> isValidDate (utc_host 0) (Some (js ''2023-02-29''))"
  using isValidDate_format_and_round_trip [OF zone_utc_host, of 0 "js ''2024-02-29''"]
    zone_utc_host [of 0]
  by blast

text \<open>
  C10. A string of the strict format whose year is below 100 is never valid: the
  constructor reads the year as 1900 + year, so the year read back differs; the date
  rules reject it as \<open>invalid_date\<close>.
\<close>

theorem isValidDate_rejects_year_below_100:
  assumes "zone_keeps_days rt" and "strict_format s" and "year_part s < 100"
  shows "MakeFullYear (year_part s) = 1900 + year_part s
    \<and> \<not> isValidDate rt (Some s)
    \<and> validateField cv rt (js ''date'') (Some s) = Inr (Invalid (js ''date'') invalid_date)"
proof -
  have "0 \<le> year_part s"
    using strict_format_parts(2) [OF assms(2)] .
  with assms(3) have full: "MakeFullYear (year_part s) = 1900 + year_part s"
    by (simp add: MakeFullYear_def)
  have invalid: "\<not> isValidDate rt (Some s)"
    using assms(3) by (simp add: isValidDate_calendar [OF assms(1)] ToString_def)
  with strict_format_not_empty [OF assms(2)] full show ?thesis
    unfolding validateField_date by (simp add: truthy_def)
qed

text \<open>The theorem in the UTC zone, at the text 0099-12-31.\<close>

theorem isValidDate_rejects_year_below_100_witness:
  "zone_keeps_days (utc_host 0) \<and> strict_format (js ''0099-12-31'')
   \<and> year_part (js ''0099-12-31'') < 100
   \<and> MakeFullYear (year_part (js ''0099-12-31'')) = 1999
   \<and> \<not> isValidDate (utc_host 0) (Some (js ''0099-12-31''))"
proof -
  have a: "strict_format (js ''0099-12-31'')"
    by (simp add: strict_format_def DecimalDigit_def)
  have b: "year_part (js ''0099-12-31'') < 100"
    by (simp add: year_part_def decimal_value_def)
  have c: "year_part (js ''0099-12-31'') = 99"
    by (simp add: year_part_def decimal_value_def)
  from isValidDate_rejects_year_below_100 [OF zone_utc_host a b, of 0] a b c
    zone_utc_host [of 0]
  show ?thesis
    by simp
qed

text \<open>
  C5. A non-empty date value that \<^verbatim>\<open>isValidDate\<close> rejects is reported as
  \<open>invalid_date\<close>, never with an age code: the calendar rule comes before the age
  rules.
\<close>

theorem invalid_date_before_age_rules:
  assumes "s \<noteq> []" and "\<not> isValidDate rt (Some s)"
  shows "validateField cv rt (js ''date'') (Some s) = Inr (Invalid (js ''date'') invalid_date)"
  using assms unfolding validateField_date by (simp add: truthy_def)

text \<open>The theorem at the text 2023-02-30.\<close>

theorem invalid_date_before_age_rules_witness:
  "js ''2023-02-30'' \<noteq> [] \<and> \<not> isValidDate (utc_host 0) (Some (js ''2023-02-30''))
   \<and> validateField \<lparr>profanityRegex = RegExp (Cat Bol Eol) False\<rparr> (utc_host 0) (js ''date'')
        (Some (js ''2023-02-30'')) = Inr (Invalid (js ''date'') invalid_date)"
proof -
  have a: "\<not> isValidDate (utc_host 0) (Some (js ''2023-02-30''))"
    by (simp add: isValidDate_calendar [OF zone_utc_host] ToString_def strict_format_def
        DecimalDigit_def year_part_def month_part_def day_part_def decimal_value_def
        calendar_date_def DaysInMonth_def DaysInYear_def)
  have b: "js ''2023-02-30'' \<noteq> []"
    by simp
  from invalid_date_before_age_rules [OF b a] a b show ?thesis
    by blast
qed


section \<open>The age checks on a text that does not parse\<close>

lemma falsy_component:
  assumes "i < length parts" and "Number_str (parts ! i) = NaN \<or> Number_str (parts ! i) = Num 0"
  shows "falsy (element (map Number_str parts) i)"
  using assms by (auto simp: falsy_def element_def)

lemma parseISODate_gives_up:
  assumes "missing_or_zero_component (or_empty v)"
  shows "parseISODate rt v = Invalid_Date"
proof -
  define parts where "parts = split_on 45 (or_empty v)"
  have "falsy (element (map Number_str parts) 0) \<or> falsy (element (map Number_str parts) 1)
    \<or> falsy (element (map Number_str parts) 2)"
  proof (cases "length parts < 3")
    case True
    then show ?thesis
      by (simp add: falsy_def element_def)
  next
    case False
    with assms obtain p where p: "p \<in> set (take 3 parts)"
      and bad: "Number_str p = NaN \<or> Number_str p = Num 0"
      by (auto simp: missing_or_zero_component_def parts_def [symmetric] Let_def list_ex_iff)
    from p obtain i where i: "i < 3" "i < length parts" "parts ! i = p"
      by (auto simp: in_set_conv_nth)
    from i(1) have "i = 0 \<or> i = 1 \<or> i = 2"
      by linarith
    with falsy_component [OF i(2)] bad i(3) show ?thesis
      by auto
  qed
  then show ?thesis
    by (simp add: parseISODate_def parts_def Let_def)
qed

text \<open>
  C6. Whenever \<^verbatim>\<open>parseISODate\<close> gives \<^verbatim>\<open>Invalid Date\<close>, both \<^verbatim>\<open>isTooYoung\<close> and
  \<^verbatim>\<open>isTooOld\<close> return true, whatever the bound; and it gives \<^verbatim>\<open>Invalid Date\<close> on every
  text with a component that is missing, not a number, or zero.
\<close>

theorem age_checks_fail_closed:
  "(missing_or_zero_component (or_empty v) \<longrightarrow> parseISODate rt v = Invalid_Date)
   \<and> (parseISODate rt v = Invalid_Date \<longrightarrow> isTooYoung rt v n \<and> isTooOld rt v n)"
  by (simp add: parseISODate_gives_up isTooYoung_def isTooOld_def)

text \<open>The theorem at the text 2020-00-10, whose month is zero.\<close>

theorem age_checks_fail_closed_witness:
  "missing_or_zero_component (or_empty (Some (js ''2020-00-10'')))
   \<and> parseISODate (utc_host 0) (Some (js ''2020-00-10'')) = Invalid_Date
   \<and> isTooYoung (utc_host 0) (Some (js ''2020-00-10'')) 8
   \<and> isTooOld (utc_host 0) (Some (js ''2020-00-10'')) 100"
proof -
  have "missing_or_zero_component (or_empty (Some (js ''2020-00-10'')))"
    by (simp add: missing_or_zero_component_def or_empty_def Number_str_def trim_def
        StrWhiteSpaceChar_def DecimalDigits_def DecimalDigit_def decimal_value_def)
  with age_checks_fail_closed [of "Some (js ''2020-00-10'')" "utc_host 0" 8]
    age_checks_fail_closed [of "Some (js ''2020-00-10'')" "utc_host 0" 100]
  show ?thesis
    by blast
qed


section \<open>Field names and the order of fields\<close>

text \<open>
  C8 (the code departs from the claim). A field name with no rules that
  \<^verbatim>\<open>Object.prototype\<close> defines, such as \<^verbatim>\<open>toString\<close>, is not passed through:
  \<^verbatim>\<open>this.validators[fieldName]\<close> is the inherited function, and iterating it throws.
\<close>

theorem validateField_toString_throws:
  "validateField cv rt (js ''toString'') value = Inl TypeError"
  by (rule validateField_inherited) (simp add: Object_prototype_properties_def)

lemma validateField_own_returns:
  assumes "field \<in> set [js ''firstname'', js ''lastname'', js ''nationality'', js ''gender'', js ''date'']"
  shows "\<exists>r. validateField cv rt field v = Inr r"
proof -
  from assms consider "field = js ''firstname''" | "field = js ''lastname''"
    | "field = js ''nationality''" | "field = js ''gender''" | "field = js ''date''"
    by auto
  then show ?thesis
  proof cases
    case 1
    show ?thesis
      unfolding 1 validateField_firstname by (simp split: option.splits)
  next
    case 2
    show ?thesis
      unfolding 2 validateField_lastname by (simp split: option.splits)
  next
    case 3
    show ?thesis
      unfolding 3 validateField_nationality by simp
  next
    case 4
    show ?thesis
      unfolding 4 validateField_gender by simp
  next
    case 5
    show ?thesis
      unfolding 5 validateField_date by simp
  qed
qed

lemma validateField_own_forgotten:
  assumes "field \<in> set [js ''firstname'', js ''lastname'', js ''nationality'', js ''gender'', js ''date'']"
    and "\<not> truthy v"
  shows "validateField cv rt field v = Inr (Invalid field forgotten_field)"
proof -
  from assms(1) consider "field = js ''firstname''" | "field = js ''lastname''"
    | "field = js ''nationality''" | "field = js ''gender''" | "field = js ''date''"
    by auto
  then show ?thesis
  proof cases
    case 1
    show ?thesis
      unfolding 1 validateField_firstname using assms(2)
      by (simp add: truthy_def split: option.splits)
  next
    case 2
    show ?thesis
      unfolding 2 validateField_lastname using assms(2)
      by (simp add: truthy_def split: option.splits)
  next
    case 3
    show ?thesis
      unfolding 3 validateField_nationality using assms(2) by simp
  next
    case 4
    show ?thesis
      unfolding 4 validateField_gender using assms(2) by simp
  next
    case 5
    show ?thesis
      unfolding 5 validateField_date using assms(2) by simp
  qed
qed

lemma validate_fields_first_failure:
  "validate_fields cv rt fs character
     = first_failure (map (\<lambda>field. validateField cv rt field (character field)) fs)"
  by (induction fs) (auto split: sum.splits ValidationResult.splits)

lemma first_failure_Valid_iff: "first_failure rs = Inr Valid \<longleftrightarrow> (\<forall>r \<in> set rs. r = Inr Valid)"
  by (induction rs) auto

lemma first_failure_returns:
  "(\<forall>r \<in> set rs. \<exists>x. r = Inr x) \<Longrightarrow> \<exists>x. first_failure rs = Inr x"
  by (induction rs) auto

text \<open>
  C2. \<^verbatim>\<open>validateCharacter\<close> checks firstname, lastname, nationality, gender and date in
  this order and returns the first result that is not valid; it returns valid exactly when
  all five fields pass. A record whose firstname is empty or absent gets the firstname
  error \<open>forgotten_field\<close>, whatever its date is.
\<close>

theorem validateCharacter_field_order:
  "validateCharacter cv rt character =
     first_failure (map (\<lambda>field. validateField cv rt field (character field))
       [js ''firstname'', js ''lastname'', js ''nationality'', js ''gender'', js ''date''])
   \<and> (validateCharacter cv rt character = Inr Valid \<longleftrightarrow>
        (\<forall>field \<in> set [js ''firstname'', js ''lastname'', js ''nationality'', js ''gender'',
                        js ''date''].
           validateField cv rt field (character field) = Inr Valid))
   \<and> (\<not> truthy (character (js ''firstname'')) \<longrightarrow>
        validateCharacter cv rt character = Inr (Invalid (js ''firstname'') forgotten_field))"
proof -
  have a: "validateCharacter cv rt character =
     first_failure (map (\<lambda>field. validateField cv rt field (character field))
       [js ''firstname'', js ''lastname'', js ''nationality'', js ''gender'', js ''date''])"
    unfolding validateCharacter_def validators_keys by (rule validate_fields_first_failure)
  have b: "validateCharacter cv rt character = Inr Valid \<longleftrightarrow>
        (\<forall>field \<in> set [js ''firstname'', js ''lastname'', js ''nationality'', js ''gender'',
                        js ''date''].
           validateField cv rt field (character field) = Inr Valid)"
    unfolding a first_failure_Valid_iff by (simp only: set_map ball_simps)
  have c: "validateCharacter cv rt character = Inr (Invalid (js ''firstname'') forgotten_field)"
    if "\<not> truthy (character (js ''firstname''))"
  proof -
    have "validateField cv rt (js ''firstname'') (character (js ''firstname''))
        = Inr (Invalid (js ''firstname'') forgotten_field)"
      using that by (intro validateField_own_forgotten) simp_all
    then show ?thesis
      unfolding a by (simp only: list.map first_failure.simps) simp
  qed
  from a b c show ?thesis
    by blast
qed

text \<open>The theorem at a record with an empty firstname and the malformed date 12/31/1999.\<close>

theorem validateCharacter_field_order_witness:
  "\<not> truthy ((\<lambda>field. if field = js ''date'' then Some (js ''12/31/1999'') else Some [])
        (js ''firstname''))
   \<and> \<not> isValidDate (utc_host 0)
        ((\<lambda>field. if field = js ''date'' then Some (js ''12/31/1999'') else Some [])
          (js ''date''))
   \<and> validateCharacter \<lparr>profanityRegex = RegExp (Cat Bol Eol) False\<rparr> (utc_host 0)
        (\<lambda>field. if field = js ''date'' then Some (js ''12/31/1999'') else Some [])
      = Inr (Invalid (js ''firstname'') forgotten_field)"
proof -
  let ?c = "\<lambda>field. if field = js ''date'' then Some (js ''12/31/1999'') else Some []"
  have a: "\<not> truthy (?c (js ''firstname''))"
    by (simp add: truthy_def)
  have b: "\<not> isValidDate (utc_host 0) (?c (js ''date''))"
    by (simp add: isValidDate_def date_format_test ToString_def strict_format_def)
  from validateCharacter_field_order
    [of "\<lparr>profanityRegex = RegExp (Cat Bol Eol) False\<rparr>" "utc_host 0" ?c] a
  have "validateCharacter \<lparr>profanityRegex = RegExp (Cat Bol Eol) False\<rparr> (utc_host 0) ?c
      = Inr (Invalid (js ''firstname'') forgotten_field)"
    by blast
  with a b show ?thesis
    by blast
qed

text \<open>
  C9. For every record, \<^verbatim>\<open>validateCharacter\<close> returns a result and does not throw, and
  so does \<^verbatim>\<open>validateField\<close> on each of the record's five fields, whatever the value:
  an absent or empty value fails the first rule and is reported as \<open>forgotten_field\<close>,
  so no later rule reads the length of an absent value. (\<^verbatim>\<open>validateField\<close> returns a
  result for every other field name as well, the names that \<^verbatim>\<open>Object.prototype\<close> defines
  apart.)
\<close>

theorem validation_never_throws:
  "(\<exists>r. validateCharacter cv rt character = Inr r)
   \<and> (\<forall>field \<in> set [js ''firstname'', js ''lastname'', js ''nationality'', js ''gender'',
                     js ''date''].
        (\<exists>r. validateField cv rt field value = Inr r)
        \<and> (\<not> truthy value \<longrightarrow>
             validateField cv rt field value = Inr (Invalid field forgotten_field)))
   \<and> (fieldName \<notin> set Object_prototype_properties \<longrightarrow>
        (\<exists>r. validateField cv rt fieldName value = Inr r))"
proof -
  have "\<exists>r. validateCharacter cv rt character = Inr r"
    unfolding validateCharacter_def validators_keys validate_fields_first_failure
    by (rule first_failure_returns) (use validateField_own_returns in auto)
  moreover have "\<exists>r. validateField cv rt field value = Inr r"
    if "field \<in> set [js ''firstname'', js ''lastname'', js ''nationality'', js ''gender'',
                     js ''date'']" for field
    using that by (rule validateField_own_returns)
  moreover have "validateField cv rt field value = Inr (Invalid field forgotten_field)"
    if "field \<in> set [js ''firstname'', js ''lastname'', js ''nationality'', js ''gender'',
                     js ''date'']" "\<not> truthy value" for field
    using that by (rule validateField_own_forgotten)
  moreover have "\<exists>r. validateField cv rt fieldName value = Inr r"
    if "fieldName \<notin> set Object_prototype_properties"
  proof (cases "fieldName \<in> set (map fst (validators cv rt))")
    case True
    then show ?thesis
      unfolding validators_keys by (rule validateField_own_returns)
  next
    case False
    from validateField_unknown [OF this that] show ?thesis
      by simp
  qed
  ultimately show ?thesis
    by blast
qed

text \<open>The theorem at the field lastname with an absent value, and at the empty record.\<close>

theorem validation_never_throws_witness:
  "js ''lastname'' \<in> set [js ''firstname'', js ''lastname'', js ''nationality'', js ''gender'',
                          js ''date'']
   \<and> \<not> truthy None
   \<and> validateField \<lparr>profanityRegex = RegExp (Cat Bol Eol) False\<rparr> (utc_host 0)
        (js ''lastname'') None = Inr (Invalid (js ''lastname'') forgotten_field)
   \<and> (\<exists>r. validateCharacter \<lparr>profanityRegex = RegExp (Cat Bol Eol) False\<rparr> (utc_host 0)
          (\<lambda>field. None) = Inr r)"
proof -
  have a: "js ''lastname'' \<in> set [js ''firstname'', js ''lastname'', js ''nationality'',
      js ''gender'', js ''date'']"
    by simp
  have b: "\<not> truthy None"
    by (simp add: truthy_def)
  from validation_never_throws
    [of "\<lparr>profanityRegex = RegExp (Cat Bol Eol) False\<rparr>" "utc_host 0" "\<lambda>field. None" None
      "js ''lastname''"]
    a b
  show ?thesis
    by blast
qed


section \<open>The profanity pattern\<close>

lemma fallback_test: "RegExp_test rt (RegExp (Cat Bol Eol) False) v \<longleftrightarrow> ToString v = []"
  by (simp add: RegExp_test_def search_Bol_None)

text \<open>
  C7. Without a term list the validator is still created, one line is logged, and the
  fallback pattern \<^verbatim>\<open>/^$/\<close> makes no call of \<^verbatim>\<open>validateField\<close> return \<open>profanity\<close>: it
  matches the empty string only, which the first rule has already reported.
\<close>

theorem fallback_never_reports_profanity:
  "\<exists>cv. initializeValidator rt None =
          Inr (cv, [js ''Profanity list not found. Validation may not work correctly.''])
     \<and> (\<forall>fieldName value field.
          validateField cv rt fieldName value \<noteq> Inr (Invalid field profanity))"
proof -
  define cv where "cv = \<lparr>profanityRegex = RegExp (Cat Bol Eol) False\<rparr>"
  have test: "RegExp_test rt (profanityRegex cv) (Some s) \<longleftrightarrow> s = []" for s
    by (simp add: cv_def fallback_test ToString_def)
  have "validateField cv rt fieldName v \<noteq> Inr (Invalid f profanity)"
    for fieldName v f
  proof -
    consider "fieldName = js ''firstname''" | "fieldName = js ''lastname''"
      | "fieldName = js ''nationality''" | "fieldName = js ''gender''"
      | "fieldName = js ''date''"
      | "fieldName \<in> set Object_prototype_properties"
      | "fieldName \<notin> set (map fst (validators cv rt))"
        "fieldName \<notin> set Object_prototype_properties"
      unfolding validators_keys by auto
    then show ?thesis
    proof cases
      case 1
      show ?thesis
        unfolding 1 validateField_firstname by (simp add: test split: option.splits)
    next
      case 2
      show ?thesis
        unfolding 2 validateField_lastname by (simp add: test split: option.splits)
    next
      case 3
      show ?thesis
        unfolding 3 validateField_nationality
        by (cases v) (simp_all add: test truthy_def)
    next
      case 4
      show ?thesis
        unfolding 4 validateField_gender by simp
    next
      case 5
      show ?thesis
        unfolding 5 validateField_date by simp
    next
      case 6
      then show ?thesis
        by (simp add: validateField_inherited)
    next
      case 7
      then show ?thesis
        by (simp add: validateField_unknown)
    qed
  qed
  moreover have "initializeValidator rt None =
      Inr (cv, [js ''Profanity list not found. Validation may not work correctly.''])"
    by (simp add: initializeValidator_def cv_def)
  ultimately show ?thesis
    by blast
qed


lemma matches_literal:
  "st \<in> set (matches cz (cats (map Lit t)) (prev, rest)) \<longleftrightarrow>
     (\<exists>occ post. rest = occ @ post \<and> map cz occ = map cz t
        \<and> st = (if occ = [] then prev else Some (last occ), post))"
proof (induction t arbitrary: prev rest)
  case Nil
  show ?case
    by (auto simp: cats_def)
next
  case (Cons c t)
  have unfold: "cats (map Lit (c # t)) = Cat (Lit c) (cats (map Lit t))"
    by (simp add: cats_def)
  show ?case
  proof (cases rest)
    case Nil
    then show ?thesis
      unfolding unfold matches_Cat_Lit by auto
  next
    case (Cons x xs)
    show ?thesis
    proof (cases "cz x = cz c")
      case False
      then show ?thesis
        unfolding unfold matches_Cat_Lit Cons by (auto simp: Cons_eq_append_conv)
    next
      case True
      have "st \<in> set (matches cz (cats (map Lit (c # t))) (prev, rest)) \<longleftrightarrow>
          (\<exists>occ post. xs = occ @ post \<and> map cz occ = map cz t
             \<and> st = (if occ = [] then Some x else Some (last occ), post))"
        unfolding unfold matches_Cat_Lit Cons using True by (simp add: Cons.IH)
      also have "\<dots> \<longleftrightarrow> (\<exists>occ post. rest = occ @ post \<and> map cz occ = map cz (c # t)
             \<and> st = (if occ = [] then prev else Some (last occ), post))"
      proof
        assume "\<exists>occ post. xs = occ @ post \<and> map cz occ = map cz t
             \<and> st = (if occ = [] then Some x else Some (last occ), post)"
        then obtain occ post where "xs = occ @ post" "map cz occ = map cz t"
          "st = (if occ = [] then Some x else Some (last occ), post)"
          by blast
        then have "rest = (x # occ) @ post \<and> map cz (x # occ) = map cz (c # t)
             \<and> st = (if x # occ = [] then prev else Some (last (x # occ)), post)"
          using True Cons by simp
        then show "\<exists>occ post. rest = occ @ post \<and> map cz occ = map cz (c # t)
             \<and> st = (if occ = [] then prev else Some (last occ), post)"
          by blast
      next
        assume "\<exists>occ post. rest = occ @ post \<and> map cz occ = map cz (c # t)
             \<and> st = (if occ = [] then prev else Some (last occ), post)"
        then obtain occ post where o: "rest = occ @ post" "map cz occ = map cz (c # t)"
          "st = (if occ = [] then prev else Some (last occ), post)"
          by blast
        from o(2) obtain y occ' where occ: "occ = y # occ'"
          by (cases occ) auto
        with o Cons have "xs = occ' @ post \<and> map cz occ' = map cz t
             \<and> st = (if occ' = [] then Some x else Some (last occ'), post)"
          by auto
        then show "\<exists>occ post. xs = occ @ post \<and> map cz occ = map cz t
             \<and> st = (if occ = [] then Some x else Some (last occ), post)"
          by blast
      qed
      finally show ?thesis .
    qed
  qed
qed

lemma matches_alternatives:
  "alts \<noteq> [] \<Longrightarrow>
   set (matches cz (alternatives alts) st) = (\<Union>t \<in> set alts. set (matches cz (cats (map Lit t)) st))"
  by (induction alts rule: alternatives.induct) simp_all

lemma search_iff:
  "search cz p prev s \<longleftrightarrow>
     (\<exists>pre post. s = pre @ post
        \<and> matches cz p (if pre = [] then prev else Some (last pre), post) \<noteq> [])"
proof (induction s arbitrary: prev)
  case Nil
  show ?case
    by simp
next
  case (Cons x xs)
  have "(\<exists>pre post. x # xs = pre @ post
        \<and> matches cz p (if pre = [] then prev else Some (last pre), post) \<noteq> [])
    \<longleftrightarrow> matches cz p (prev, x # xs) \<noteq> []
      \<or> (\<exists>pre post. xs = pre @ post
        \<and> matches cz p (if pre = [] then Some x else Some (last pre), post) \<noteq> [])"
    (is "?L \<longleftrightarrow> ?A \<or> ?B")
  proof
    assume ?L
    then obtain pre post where pp: "x # xs = pre @ post"
      "matches cz p (if pre = [] then prev else Some (last pre), post) \<noteq> []"
      by blast
    show "?A \<or> ?B"
    proof (cases pre)
      case Nil
      with pp show ?thesis
        by simp
    next
      case (Cons y pre')
      with pp have "xs = pre' @ post
        \<and> matches cz p (if pre' = [] then Some x else Some (last pre'), post) \<noteq> []"
        by auto
      then show ?thesis
        by blast
    qed
  next
    assume "?A \<or> ?B"
    then show ?L
    proof
      assume ?A
      then have "x # xs = [] @ (x # xs)
        \<and> matches cz p (if [] = [] then prev else Some (last []), x # xs) \<noteq> []"
        by simp
      then show ?L
        by blast
    next
      assume ?B
      then obtain pre post where "xs = pre @ post"
        "matches cz p (if pre = [] then Some x else Some (last pre), post) \<noteq> []"
        by blast
      then have "x # xs = (x # pre) @ post
        \<and> matches cz p (if x # pre = [] then prev else Some (last (x # pre)), post) \<noteq> []"
        by (cases "pre = []") simp_all
      then show ?L
        by blast
    qed
  qed
  then show ?case
    by (simp add: Cons.IH)
qed

text \<open>
  What \<^verbatim>\<open>(t1|...|tn)\b\<close> finds: an occurrence of a term, up to case, with a word boundary
  right after it. Nothing is asked of what stands before the occurrence.
\<close>

lemma search_alternatives_WordB:
  assumes "alts \<noteq> []"
  shows "search cz (Cat (alternatives alts) WordB) None s \<longleftrightarrow>
     (\<exists>pre occ post t. s = pre @ occ @ post \<and> t \<in> set alts \<and> map cz occ = map cz t
        \<and> IsWordChar (last_unit (pre @ occ)) \<noteq> IsWordChar (head post))"
    (is "?L \<longleftrightarrow> ?R")
proof
  assume ?L
  then obtain pre rest where s: "s = pre @ rest"
    and m: "matches cz (Cat (alternatives alts) WordB)
        (if pre = [] then None else Some (last pre), rest) \<noteq> []"
    unfolding search_iff by blast
  from m obtain st where st: "st \<in> set (matches cz (alternatives alts)
        (if pre = [] then None else Some (last pre), rest))"
    and b: "matches cz WordB st \<noteq> []"
    by (auto simp: concat_eq_Nil_conv simp del: matches.simps(6))
  from st obtain t where t: "t \<in> set alts"
    and "st \<in> set (matches cz (cats (map Lit t))
        (if pre = [] then None else Some (last pre), rest))"
    unfolding matches_alternatives [OF assms] by blast
  then obtain occ post where o: "rest = occ @ post" "map cz occ = map cz t"
    "st = (if occ = [] then (if pre = [] then None else Some (last pre)) else Some (last occ), post)"
    unfolding matches_literal by blast
  have "fst st = last_unit (pre @ occ)"
    by (simp add: o(3) last_unit_def)
  with b o(3) have "IsWordChar (last_unit (pre @ occ)) \<noteq> IsWordChar (head post)"
    by (cases st) (auto split: if_splits)
  with s o(1,2) t show ?R
    by blast
next
  assume ?R
  then obtain pre occ post t where r: "s = pre @ occ @ post" "t \<in> set alts"
    "map cz occ = map cz t"
    "IsWordChar (last_unit (pre @ occ)) \<noteq> IsWordChar (head post)"
    by blast
  define st where "st = (last_unit (pre @ occ), post)"
  have "st = (if occ = [] then (if pre = [] then None else Some (last pre)) else Some (last occ), post)"
    by (simp add: st_def last_unit_def)
  with r(3) have "st \<in> set (matches cz (cats (map Lit t))
        (if pre = [] then None else Some (last pre), occ @ post))"
    unfolding matches_literal by blast
  with r(2) have "st \<in> set (matches cz (alternatives alts)
        (if pre = [] then None else Some (last pre), occ @ post))"
    unfolding matches_alternatives [OF assms] by blast
  moreover have "matches cz WordB st \<noteq> []"
    using r(4) by (simp add: st_def)
  ultimately have "matches cz (Cat (alternatives alts) WordB)
        (if pre = [] then None else Some (last pre), occ @ post) \<noteq> []"
    by (auto simp: concat_eq_Nil_conv simp del: matches.simps(6))
  with r(1) show ?L
    unfolding search_iff by blast
qed


lemma split_on_no_sep: "sep \<notin> set t \<Longrightarrow> split_on sep t = [t]"
  by (induction t) auto

lemma split_on_append_sep: "sep \<notin> set t \<Longrightarrow> split_on sep (t @ sep # r) = t # split_on sep r"
  by (induction t) auto

lemma split_on_join:
  "ts \<noteq> [] \<Longrightarrow> \<forall>t \<in> set ts. sep \<notin> set t \<Longrightarrow> split_on sep (join [sep] ts) = ts"
  by (induction "[sep]" ts rule: join.induct) (simp_all add: split_on_no_sep split_on_append_sep)

lemma join_plain_terms:
  "plain_terms ts \<Longrightarrow> list_all (\<lambda>c. c = 124 \<or> \<not> SyntaxCharacter c) (join [124] ts)"
  by (induction "[124::nat]" ts rule: join.induct)
    (auto simp: plain_terms_def list_all_iff)

lemma plain_terms_no_bar: "plain_terms ts \<Longrightarrow> \<forall>t \<in> set ts. 124 \<notin> set t"
  by (auto simp: plain_terms_def list_all_iff SyntaxCharacter_def)

lemma new_RegExp_i_plain_terms:
  assumes "plain_terms ts"
  shows "new_RegExp_i rt (40 # join [124] ts @ [41, 92, 98])
    = Inr (RegExp (Cat (alternatives (if ts = [] then [[]] else ts)) WordB) True)"
proof -
  have "split_on 124 (join [124] ts) = (if ts = [] then [[]] else ts)"
    using split_on_join [OF _ plain_terms_no_bar [OF assms]] by simp
  with join_plain_terms [OF assms] show ?thesis
    by (simp add: new_RegExp_i_def)
qed

lemma initializeValidator_plain_terms:
  assumes "plain_terms ts"
  shows "initializeValidator rt (Some ts)
    = Inr (\<lparr>profanityRegex = RegExp (Cat (alternatives (if ts = [] then [[]] else ts)) WordB) True\<rparr>, [])"
  by (simp add: initializeValidator_def new_RegExp_i_plain_terms [OF assms])

lemma profanity_test_iff:
  "RegExp_test rt (RegExp (Cat (alternatives (if ts = [] then [[]] else ts)) WordB) True) (Some s) \<longleftrightarrow>
     (\<exists>pre occ post t. s = pre @ occ @ post \<and> (t \<in> set ts \<or> ts = [] \<and> t = [])
        \<and> same_ignoring_case rt occ t
        \<and> IsWordChar (last_unit (pre @ occ)) \<noteq> IsWordChar (head post))"
proof -
  have "(if ts = [] then [[]] else ts) \<noteq> []"
    by simp
  from search_alternatives_WordB [OF this, of "Canonicalize rt" s] show ?thesis
    unfolding RegExp_test_def same_ignoring_case_def
    by (cases "ts = []") (simp_all add: ToString_def)
qed

lemma Canonicalize_above_ASCII: "128 \<le> x \<Longrightarrow> 128 \<le> Canonicalize rt x"
  by (auto simp: Canonicalize_def split: list.splits)

lemma Canonicalize_WordCharacter:
  assumes "Canonicalize rt x = Canonicalize rt y" and "WordCharacter y"
  shows "WordCharacter x"
proof (cases "x < 128")
  case True
  with assms show ?thesis
    by (auto simp: Canonicalize_def WordCharacter_def split: if_splits)
next
  case False
  then have "128 \<le> Canonicalize rt x"
    by (intro Canonicalize_above_ASCII) simp
  moreover have "Canonicalize rt y < 128"
    using assms(2) by (auto simp: Canonicalize_def WordCharacter_def)
  ultimately show ?thesis
    using assms(1) by simp
qed

lemma same_ignoring_case_last:
  assumes "same_ignoring_case rt s t" and "IsWordChar (last_unit t)"
  shows "s \<noteq> []" and "IsWordChar (last_unit s)"
proof -
  from assms(2) have t: "t \<noteq> []" "WordCharacter (last t)"
    by (auto simp: last_unit_def IsWordChar_def split: if_splits)
  from assms(1) have len: "length s = length t"
    unfolding same_ignoring_case_def by (rule map_eq_imp_length_eq)
  with t(1) show s: "s \<noteq> []"
    by auto
  from assms(1) have "last (map (Canonicalize rt) s) = last (map (Canonicalize rt) t)"
    by (simp add: same_ignoring_case_def)
  then have "Canonicalize rt (last s) = Canonicalize rt (last t)"
    using s t(1) by (simp add: last_map)
  from Canonicalize_WordCharacter [OF this t(2)] s show "IsWordChar (last_unit s)"
    by (simp add: last_unit_def IsWordChar_def)
qed

text \<open>
  What the profanity rule flags, for a term list without pattern syntax: a value in
  which a term occurs, compared without regard to case, with a word boundary right after
  the occurrence (word characters are the ASCII letters, the digits and the underscore).
  Nothing is asked of what stands before the occurrence. An empty term list gives the
  pattern \<^verbatim>\<open>()\b\<close>, which finds the empty string at any word boundary. A value that is
  a term ending in a word character is therefore reported as \<open>profanity\<close>, for
  firstname and lastname when its length passes the length rules.
\<close>

lemma profanity_pattern_flags:
  assumes "plain_terms terms"
  shows "\<exists>cv. initializeValidator rt (Some terms) = Inr (cv, [])
    \<and> (\<forall>s. RegExp_test rt (profanityRegex cv) (Some s) \<longleftrightarrow>
          (\<exists>pre occ post t. s = pre @ occ @ post \<and> (t \<in> set terms \<or> terms = [] \<and> t = [])
             \<and> same_ignoring_case rt occ t
             \<and> IsWordChar (last_unit (pre @ occ)) \<noteq> IsWordChar (head post)))
    \<and> (\<forall>s t. t \<in> set terms \<and> same_ignoring_case rt s t \<and> IsWordChar (last_unit t) \<longrightarrow>
          validateField cv rt (js ''nationality'') (Some s)
            = Inr (Invalid (js ''nationality'') profanity)
          \<and> (2 \<le> length s \<and> length s \<le> 16 \<longrightarrow>
                validateField cv rt (js ''firstname'') (Some s)
                  = Inr (Invalid (js ''firstname'') profanity)
              \<and> validateField cv rt (js ''lastname'') (Some s)
                  = Inr (Invalid (js ''lastname'') profanity)))"
proof -
  define cv where
    "cv = \<lparr>profanityRegex = RegExp (Cat (alternatives (if terms = [] then [[]] else terms)) WordB) True\<rparr>"
  have init: "initializeValidator rt (Some terms) = Inr (cv, [])"
    unfolding cv_def by (rule initializeValidator_plain_terms [OF assms])
  have test: "RegExp_test rt (profanityRegex cv) (Some s) \<longleftrightarrow>
          (\<exists>pre occ post t. s = pre @ occ @ post \<and> (t \<in> set terms \<or> terms = [] \<and> t = [])
             \<and> same_ignoring_case rt occ t
             \<and> IsWordChar (last_unit (pre @ occ)) \<noteq> IsWordChar (head post))" for s
    unfolding cv_def by (simp only: CharacterValidator.simps profanity_test_iff)
  have whole: "RegExp_test rt (profanityRegex cv) (Some s)" "s \<noteq> []"
    if "t \<in> set terms" "same_ignoring_case rt s t" "IsWordChar (last_unit t)" for s t
  proof -
    note s = same_ignoring_case_last [OF that(2,3)]
    show "s \<noteq> []"
      by (rule s(1))
    have "s = [] @ s @ [] \<and> (t \<in> set terms \<or> terms = [] \<and> t = [])
      \<and> same_ignoring_case rt s t
      \<and> IsWordChar (last_unit ([] @ s)) \<noteq> IsWordChar (head [])"
      using that s(2) by (simp add: head_def IsWordChar_def)
    then show "RegExp_test rt (profanityRegex cv) (Some s)"
      unfolding test by blast
  qed
  have nat: "validateField cv rt (js ''nationality'') (Some s)
      = Inr (Invalid (js ''nationality'') profanity)"
    if "t \<in> set terms" "same_ignoring_case rt s t" "IsWordChar (last_unit t)" for s t
    unfolding validateField_nationality using whole [OF that] by (simp add: truthy_def)
  have names: "validateField cv rt (js ''firstname'') (Some s)
        = Inr (Invalid (js ''firstname'') profanity)
      \<and> validateField cv rt (js ''lastname'') (Some s)
        = Inr (Invalid (js ''lastname'') profanity)"
    if "t \<in> set terms" "same_ignoring_case rt s t" "IsWordChar (last_unit t)"
      "2 \<le> length s" "length s \<le> 16" for s t
    unfolding validateField_firstname validateField_lastname
    using whole [OF that(1-3)] that(4,5) by simp
  show ?thesis
  proof (intro exI [of _ cv] conjI allI impI)
    show "initializeValidator rt (Some terms) = Inr (cv, [])"
      by (rule init)
  next
    fix s
    show "RegExp_test rt (profanityRegex cv) (Some s) \<longleftrightarrow>
          (\<exists>pre occ post t. s = pre @ occ @ post \<and> (t \<in> set terms \<or> terms = [] \<and> t = [])
             \<and> same_ignoring_case rt occ t
             \<and> IsWordChar (last_unit (pre @ occ)) \<noteq> IsWordChar (head post))"
      by (rule test)
  next
    fix s t
    assume "t \<in> set terms \<and> same_ignoring_case rt s t \<and> IsWordChar (last_unit t)"
    then show "validateField cv rt (js ''nationality'') (Some s)
        = Inr (Invalid (js ''nationality'') profanity)"
      using nat by blast
  next
    fix s t
    assume "t \<in> set terms \<and> same_ignoring_case rt s t \<and> IsWordChar (last_unit t)"
      and "2 \<le> length s \<and> length s \<le> 16"
    then show "validateField cv rt (js ''firstname'') (Some s)
        = Inr (Invalid (js ''firstname'') profanity)"
      using names by blast
  next
    fix s t
    assume "t \<in> set terms \<and> same_ignoring_case rt s t \<and> IsWordChar (last_unit t)"
      and "2 \<le> length s \<and> length s \<le> 16"
    then show "validateField cv rt (js ''lastname'') (Some s)
        = Inr (Invalid (js ''lastname'') profanity)"
      using names by blast
  qed
qed

text \<open>
  C1 (the code departs from the claim). The pattern built from the term list has a word
  boundary after the terms and none before them, so a term that ends a larger word is
  matched: with the term list [hell], the firstname Shell, in which the term stands
  inside a larger word, is reported as \<open>profanity\<close>.
\<close>

theorem profanity_flags_term_inside_word:
  "initializeValidator (utc_host 0) (Some [js ''hell''])
     = Inr (\<lparr>profanityRegex = RegExp (Cat (alternatives [js ''hell'']) WordB) True\<rparr>, [])
   \<and> validateField \<lparr>profanityRegex = RegExp (Cat (alternatives [js ''hell'']) WordB) True\<rparr>
        (utc_host 0) (js ''firstname'') (Some (js ''Shell''))
     = Inr (Invalid (js ''firstname'') profanity)"
proof -
  have "plain_terms [js ''hell'']"
    by (simp add: plain_terms_def SyntaxCharacter_def)
  from initializeValidator_plain_terms [OF this, of "utc_host 0"]
  have a: "initializeValidator (utc_host 0) (Some [js ''hell''])
     = Inr (\<lparr>profanityRegex = RegExp (Cat (alternatives [js ''hell'']) WordB) True\<rparr>, [])"
    by simp
  have "RegExp_test (utc_host 0) (RegExp (Cat (alternatives [js ''hell'']) WordB) True)
      (Some (js ''Shell''))"
    by (simp add: RegExp_test_def ToString_def cats_def Canonicalize_def IsWordChar_def
        WordCharacter_def head_def)
  then have b: "validateField \<lparr>profanityRegex = RegExp (Cat (alternatives [js ''hell'']) WordB) True\<rparr>
        (utc_host 0) (js ''firstname'') (Some (js ''Shell''))
     = Inr (Invalid (js ''firstname'') profanity)"
    unfolding validateField_firstname by simp
  from a b show ?thesis
    by blast
qed


section \<open>The age rules\<close>























end
